theory Spec2Isabelle
  imports Main "HOL-Library.Signed_Division" "HOL-Library.Sublist" "HOL-Library.Word"
begin

unbundle bit_operations_syntax

section \<open>Time values and their addition\<close>

text \<open>
  \<^verbatim>\<open>struct timespec\<close> has two signed 64-bit fields (\<^verbatim>\<open>time_t tv_sec\<close> and
  \<^verbatim>\<open>long tv_nsec\<close>), kept here as \<open>int\<close> with the narrowings of the source written
  out: the sum of seconds of \<^verbatim>\<open>timespec_add\<close> is reduced to the signed 64 bits of
  \<^verbatim>\<open>time_t\<close>, as the compiled program does (two's complement), and its
  \<^verbatim>\<open>uint32_t nsecs\<close> is reduced modulo \<open>2 ^ 32\<close>.
\<close>

record timespec =
  tv_sec :: int
  tv_nsec :: int

definition NS_IN_SEC :: int where
  "NS_IN_SEC = 1000000000"

text \<open>
  \<^verbatim>\<open>timespec_add\<close> (src/repeat.c, lines 180-189). The operators \<^verbatim>\<open>%\<close> and \<^verbatim>\<open>/\<close>
  on the signed \<^verbatim>\<open>tv_nsec\<close> truncate towards zero (\<open>smod\<close>, \<open>sdiv\<close>); the sum of the two
  remainders is converted to \<^verbatim>\<open>uint32_t\<close>, and the division and remainder of that
  unsigned value by \<^verbatim>\<open>NS_IN_SEC\<close> are unsigned. \<open>TIME_T_MAX\<close> is the largest
  \<^verbatim>\<open>time_t\<close>, and \<open>to_time_t\<close> the reduction of a sum to the range of \<^verbatim>\<open>time_t\<close>.
\<close>

definition TIME_T_MAX :: int where
  "TIME_T_MAX = 9223372036854775807"

definition to_time_t :: "int \<Rightarrow> int" where
  "to_time_t x = signed_take_bit 63 x"

definition timespec_add :: "timespec \<Rightarrow> timespec \<Rightarrow> timespec" where
  "timespec_add a b =
     (let nsecs = ((tv_nsec a smod NS_IN_SEC) + (tv_nsec b smod NS_IN_SEC)) mod 2 ^ 32
      in \<lparr> tv_sec = to_time_t (tv_sec a + tv_sec b + (tv_nsec a sdiv NS_IN_SEC)
                               + (tv_nsec b sdiv NS_IN_SEC) + (nsecs div NS_IN_SEC)),
           tv_nsec = nsecs mod NS_IN_SEC \<rparr>)"

text \<open>The number of nanoseconds a time value stands for.\<close>

definition total_ns :: "timespec \<Rightarrow> int" where
  "total_ns t = tv_sec t * NS_IN_SEC + tv_nsec t"

text \<open>A time value in normal form: no negative component, less than a second of nanoseconds.\<close>

definition normalized :: "timespec \<Rightarrow> bool" where
  "normalized t \<longleftrightarrow> 0 \<le> tv_sec t \<and> 0 \<le> tv_nsec t \<and> tv_nsec t < NS_IN_SEC"

section \<open>Termination statuses of a child\<close>

text \<open>
  The macros of \<^verbatim>\<open><sys/wait.h>\<close> that \<^verbatim>\<open>main\<close> applies to the status word, as
  the GNU C library defines them, and the two signal numbers and the error number the source
  names (their Linux values). A status word is an \<^verbatim>\<open>int\<close>; the bitwise operators act on
  its two's-complement representation, as those of \<open>int\<close> do.
\<close>

definition WEXITSTATUS :: "int \<Rightarrow> int" where
  "WEXITSTATUS status = drop_bit 8 (status AND 0xff00)"

definition WTERMSIG :: "int \<Rightarrow> int" where
  "WTERMSIG status = status AND 0x7f"

text \<open>\<^verbatim>\<open>((signed char) (((status) & 0x7f) + 1) >> 1) > 0\<close>\<close>

definition WIFSIGNALED :: "int \<Rightarrow> bool" where
  "WIFSIGNALED status \<longleftrightarrow> drop_bit 1 (signed_take_bit 7 ((status AND 0x7f) + 1)) > 0"

definition SIGINT :: int where
  "SIGINT = 2"

definition SIGQUIT :: int where
  "SIGQUIT = 3"

definition EINTR :: int where
  "EINTR = 4"

text \<open>
  How a child can end, and the status word the kernel reports for it: the exit code in bits
  8 to 15 for a normal exit; the signal number in bits 0 to 6, and bit 7 when a core was
  dumped, for a child killed by a signal.
\<close>

datatype child_end = NormalExit int | Signaled int bool

definition well_formed :: "child_end \<Rightarrow> bool" where
  "well_formed t =
     (case t of NormalExit code \<Rightarrow> 0 \<le> code \<and> code \<le> 255
              | Signaled sig core \<Rightarrow> 1 \<le> sig \<and> sig \<le> 64)"

definition status_word :: "child_end \<Rightarrow> int" where
  "status_word t =
     (case t of NormalExit code \<Rightarrow> push_bit 8 code
              | Signaled sig core \<Rightarrow> sig OR (if core then 0x80 else 0))"

section \<open>The configuration and the environment\<close>

text \<open>
  The global variables of src/repeat.c (lines 45-53). \<^verbatim>\<open>times\<close> is called \<open>times_n\<close>
  here. \<^verbatim>\<open>command\<close> is \<open>None\<close> while the pointer is \<^verbatim>\<open>NULL\<close>.
\<close>

record globals =
  times_n :: int
  interval_ts :: timespec
  precise :: bool
  exit_on_error :: bool
  exit_on_success :: bool
  use_exec :: bool
  debug :: bool
  cmd_arg_idx :: nat
  command :: "string option"

definition initial_globals :: globals where
  "initial_globals =
     \<lparr> times_n = 0, interval_ts = \<lparr>tv_sec = 0, tv_nsec = 0\<rparr>, precise = False,
       exit_on_error = False, exit_on_success = False, use_exec = False, debug = False,
       cmd_arg_idx = 0, command = None \<rparr>"

text \<open>What the program writes, as a list of the texts and the streams they go to.\<close>

datatype stream = Stdout | Stderr

datatype message = USAGE | REPEAT_VERSION | Debug_enabled | Debug_dump | Bad_unit | Cant_happen
  | Getopt_message | Fatal_getting_time | Fatal_waiting | Couldnt_run

type_synonym printed = "(stream \<times> message) list"

text \<open>
  The operating system, as far as \<^verbatim>\<open>main\<close> asks it. \<open>system_ret w k\<close> is what
  \<^verbatim>\<open>system\<close> returns in iteration \<open>k\<close> of the loop (counted from 0),
  \<open>wait_ret w k j\<close> what the \<open>j\<close>-th call of \<^verbatim>\<open>wait\<close> in iteration \<open>k\<close> reports
  (\<open>-1\<close> with an error number, or the reaped child's status), \<open>origin_ret w\<close> and
  \<open>now_ret w k\<close> what \<^verbatim>\<open>clock_gettime\<close> gives before the loop and in iteration
  \<open>k\<close>, and \<open>nanosleep_ret w k j\<close> what the \<open>j\<close>-th call of
  \<^verbatim>\<open>clock_nanosleep\<close> in iteration \<open>k\<close> returns.
\<close>

datatype wait_result = Wait_Failed int | Reaped int

datatype clock_result = Clock_Failed | Clock_Read timespec

record world =
  system_ret :: "nat \<Rightarrow> int"
  wait_ret :: "nat \<Rightarrow> nat \<Rightarrow> wait_result"
  origin_ret :: clock_result
  now_ret :: "nat \<Rightarrow> clock_result"
  nanosleep_ret :: "nat \<Rightarrow> nat \<Rightarrow> int"

text \<open>
  The local \<^verbatim>\<open>next_exec\<close> of \<^verbatim>\<open>main\<close>, and what an observer of the process
  sees: how many times the command was launched, how many times the clock was read, the
  deadlines of the sleeps that were completed (oldest first), and the texts written.
\<close>

record run_state =
  next_exec :: timespec
  launches :: nat
  clock_reads :: nat
  sleeps :: "timespec list"
  written :: printed

definition say :: "stream \<times> message \<Rightarrow> run_state \<Rightarrow> run_state" where
  "say m st = st\<lparr>written := written st @ [m]\<rparr>"

section \<open>The execution loop\<close>

text \<open>
  The loops of \<^verbatim>\<open>main\<close> may run forever. Each takes a bound on the number of its
  iterations and returns \<open>None\<close> when the bound is reached.

  Lines 232-242: \<^verbatim>\<open>wait\<close> is called again after \<^verbatim>\<open>EINTR\<close>; any other error ends
  the process.
\<close>

fun wait_loop :: "nat \<Rightarrow> (nat \<Rightarrow> wait_result) \<Rightarrow> nat \<Rightarrow> wait_result option" where
  "wait_loop 0 rets j = None"
| "wait_loop (Suc fuel) rets j =
     (case rets j of
        Wait_Failed errno \<Rightarrow>
          if errno \<noteq> EINTR then Some (Wait_Failed errno) else wait_loop fuel rets (Suc j)
      | Reaped status \<Rightarrow> Some (Reaped status))"

text \<open>Lines 281-283: the sleep is called again until it returns 0. The result is the number of calls.\<close>

fun sleep_loop :: "nat \<Rightarrow> (nat \<Rightarrow> int) \<Rightarrow> nat \<Rightarrow> nat option" where
  "sleep_loop 0 rets j = None"
| "sleep_loop (Suc fuel) rets j =
     (if rets j \<noteq> 0 then sleep_loop fuel rets (Suc j) else Some (Suc j))"

text \<open>Lines 226-245: the command is run by \<^verbatim>\<open>fork\<close>, \<^verbatim>\<open>execvp\<close> and \<^verbatim>\<open>wait\<close>, or by \<^verbatim>\<open>system\<close>.\<close>

definition launch :: "nat \<Rightarrow> world \<Rightarrow> globals \<Rightarrow> nat \<Rightarrow> wait_result option" where
  "launch fuel w g k =
     (if use_exec g then wait_loop fuel (wait_ret w k) 0 else Some (Reaped (system_ret w k)))"

text \<open>Lines 251-261: the three checks that end the process, in the order of the source.\<close>

datatype verdict = Stop int | Go_on

definition evaluate :: "globals \<Rightarrow> int \<Rightarrow> verdict" where
  "evaluate g ret =
     (if WEXITSTATUS ret \<noteq> 0 \<and> exit_on_error g then Stop (WEXITSTATUS ret)
      else if WEXITSTATUS ret = 0 \<and> exit_on_success g then Stop 0
      else if WIFSIGNALED ret \<and> (WTERMSIG ret = SIGINT \<or> WTERMSIG ret = SIGQUIT) then Stop 0
      else Go_on)"


datatype step = Continue globals run_state | Exited int run_state

text \<open>Lines 270-284: the wait for the next deadline, in iteration \<open>k\<close>.\<close>

definition pause :: "nat \<Rightarrow> world \<Rightarrow> globals \<Rightarrow> nat \<Rightarrow> run_state \<Rightarrow> step option" where
  "pause fuel w g k st =
     (if tv_sec (interval_ts g) \<noteq> 0 \<or> tv_nsec (interval_ts g) \<noteq> 0 then
        (case (if \<not> precise g then
                 (case now_ret w k of
                    Clock_Failed \<Rightarrow> Inl (say (Stderr, Fatal_getting_time) st)
                  | Clock_Read now \<Rightarrow>
                      Inr (st\<lparr>next_exec := timespec_add now (interval_ts g),
                               clock_reads := Suc (clock_reads st)\<rparr>))
               else Inr st) of
           Inl st' \<Rightarrow> Some (Exited 1 st')
         | Inr st' \<Rightarrow>
             (case sleep_loop fuel (nanosleep_ret w k) 0 of
                None \<Rightarrow> None
              | Some calls \<Rightarrow> Some (Continue g (st'\<lparr>sleeps := sleeps st' @ [next_exec st']\<rparr>))))
      else Some (Continue g st))"

text \<open>Lines 221-284: one iteration of the \<^verbatim>\<open>while (true)\<close> loop.\<close>

definition loop_body :: "nat \<Rightarrow> world \<Rightarrow> globals \<Rightarrow> run_state \<Rightarrow> step option" where
  "loop_body fuel w g st =
     (let k = launches st;
          st1 = (if precise g
                 then st\<lparr>next_exec := timespec_add (next_exec st) (interval_ts g)\<rparr> else st);
          st2 = st1\<lparr>launches := Suc k\<rparr>
      in case launch fuel w g k of
           None \<Rightarrow> None
         | Some (Wait_Failed errno) \<Rightarrow> Some (Exited 1 (say (Stderr, Fatal_waiting) st2))
         | Some (Reaped ret) \<Rightarrow>
             if ret < 0 then Some (Exited 1 (say (Stderr, Couldnt_run) st2))
             else (case evaluate g ret of
                     Stop code \<Rightarrow> Some (Exited code st2)
                   | Go_on \<Rightarrow>
                       let g' = (if times_n g > 0 then g\<lparr>times_n := times_n g - 1\<rparr> else g)
                       in if times_n g > 0 \<and> times_n g' = 0
                          then Some (Exited (WEXITSTATUS ret) st2)
                          else pause fuel w g' k st2))"

text \<open>Lines 220-285: the loop. The result is the exit status and what was observed.\<close>

fun main_loop :: "nat \<Rightarrow> world \<Rightarrow> globals \<Rightarrow> run_state \<Rightarrow> (int \<times> run_state) option" where
  "main_loop 0 w g st = None"
| "main_loop (Suc fuel) w g st =
     (case loop_body fuel w g st of
        None \<Rightarrow> None
      | Some (Exited code st') \<Rightarrow> Some (code, st')
      | Some (Continue g' st') \<Rightarrow> main_loop fuel w g' st')"

text \<open>
  The process after \<open>n\<close> iterations of the loop: still running, with its variables, or
  ended before; \<open>None\<close> when an inner loop does not end within the bound.
\<close>

fun rounds :: "nat \<Rightarrow> nat \<Rightarrow> world \<Rightarrow> globals \<Rightarrow> run_state \<Rightarrow> step option" where
  "rounds fuel 0 w g st = Some (Continue g st)"
| "rounds fuel (Suc n) w g st =
     (case loop_body fuel w g st of
        Some (Continue g' st') \<Rightarrow> rounds fuel n w g' st'
      | r \<Rightarrow> r)"

text \<open>The \<open>k\<close>-th deadline of a schedule: the origin, advanced \<open>k\<close> times by the interval.\<close>

fun deadline :: "timespec \<Rightarrow> timespec \<Rightarrow> nat \<Rightarrow> timespec" where
  "deadline origin interval 0 = origin"
| "deadline origin interval (Suc k) = timespec_add (deadline origin interval k) interval"

text \<open>A step of the loop with the repeat count set to 0, to compare runs that differ in the count only.\<close>

definition uncounted :: "step \<Rightarrow> step" where
  "uncounted r = (case r of Continue g st \<Rightarrow> Continue (g\<lparr>times_n := 0\<rparr>) st
                          | Exited code st \<Rightarrow> Exited code st)"

definition initial_state :: "printed \<Rightarrow> run_state" where
  "initial_state out =
     \<lparr> next_exec = \<lparr>tv_sec = 0, tv_nsec = 0\<rparr>, launches = 0, clock_reads = 0, sleeps = [],
       written = out \<rparr>"

text \<open>
  Lines 202-286: \<^verbatim>\<open>main\<close> after the arguments are parsed. \<^verbatim>\<open>next_exec\<close> is not
  initialised in the source; it is written before it is read on every path.
\<close>

definition start :: "world \<Rightarrow> globals \<Rightarrow> printed \<Rightarrow> (int \<times> run_state) + run_state" where
  "start w g out =
     (let st = initial_state (if debug g then out @ [(Stdout, Debug_dump)] else out)
      in if precise g then
           (case origin_ret w of
              Clock_Failed \<Rightarrow> Inl (1, say (Stderr, Fatal_getting_time) st)
            | Clock_Read now \<Rightarrow> Inr (st\<lparr>next_exec := now, clock_reads := 1\<rparr>))
         else Inr st)"

definition run :: "nat \<Rightarrow> world \<Rightarrow> globals \<Rightarrow> printed \<Rightarrow> (int \<times> run_state) option" where
  "run fuel w g out =
     (case start w g out of
        Inl ended \<Rightarrow> Some ended
      | Inr st \<Rightarrow> main_loop fuel w g st)"

text \<open>
  What the claims about the repeat count suppose of the environment. \<open>child_exits w g k code\<close>:
  the child of iteration \<open>k\<close> ends by a normal exit with \<open>code\<close> (in the direct mode,
  \<^verbatim>\<open>wait\<close> reports it after being interrupted some number of times).
  \<open>pause_ends w g k\<close>: in iteration \<open>k\<close> the clock can be read and the sleep returns 0
  at some call, where an interval is configured.
\<close>

definition child_exits :: "world \<Rightarrow> globals \<Rightarrow> nat \<Rightarrow> int \<Rightarrow> bool" where
  "child_exits w g k code \<longleftrightarrow>
     0 \<le> code \<and> code \<le> 255 \<and>
     (if use_exec g
      then \<exists>j. (\<forall>i<j. wait_ret w k i = Wait_Failed EINTR)
                \<and> wait_ret w k j = Reaped (status_word (NormalExit code))
      else system_ret w k = status_word (NormalExit code))"

definition pause_ends :: "world \<Rightarrow> globals \<Rightarrow> nat \<Rightarrow> bool" where
  "pause_ends w g k \<longleftrightarrow>
     (if tv_sec (interval_ts g) \<noteq> 0 \<or> tv_nsec (interval_ts g) \<noteq> 0
      then (precise g \<or> now_ret w k \<noteq> Clock_Failed) \<and> (\<exists>j. nanosleep_ret w k j = 0)
      else True)"

section \<open>The command line\<close>

text \<open>
  \<^verbatim>\<open>strtol (optarg, &endp, 10)\<close> of the C library, for a 64-bit \<^verbatim>\<open>long\<close>: white
  space, an optional sign, decimal digits; a value out of range is clamped. The result is the
  value and the number of characters read, which is 0 (\<^verbatim>\<open>endp == optarg\<close>) when there
  is no digit to convert.
\<close>

definition isspace :: "char \<Rightarrow> bool" where
  "isspace c \<longleftrightarrow> c \<in> set [CHR '' '', CHR 0x09, CHR 0x0A, CHR 0x0B, CHR 0x0C, CHR 0x0D]"

definition isdigit :: "char \<Rightarrow> bool" where
  "isdigit c \<longleftrightarrow> c \<in> set ''0123456789''"

definition digit_value :: "char \<Rightarrow> int" where
  "digit_value c = of_char c - 48"

definition LONG_MAX :: int where
  "LONG_MAX = 2 ^ 63 - 1"

definition LONG_MIN :: int where
  "LONG_MIN = - (2 ^ 63)"

definition strtol :: "string \<Rightarrow> int \<times> nat" where
  "strtol nptr =
     (let blanks = takeWhile isspace nptr;
          s1 = dropWhile isspace nptr;
          negative = (take 1 s1 = ''-'');
          signed = (take 1 s1 = ''-'' \<or> take 1 s1 = ''+'');
          s2 = (if signed then drop 1 s1 else s1);
          digits = takeWhile isdigit s2;
          v = foldl (\<lambda>acc c. acc * 10 + digit_value c) 0 digits
      in if digits = [] then (0, 0)
         else (if negative then max LONG_MIN (- v) else min LONG_MAX v,
               length blanks + (if signed then 1 else 0) + length digits))"

text \<open>The assignment of a \<^verbatim>\<open>long\<close> to the \<^verbatim>\<open>int\<close> \<^verbatim>\<open>times\<close> keeps the low 32 bits.\<close>

definition int_of_long :: "int \<Rightarrow> int" where
  "int_of_long v = signed_take_bit 31 v"

text \<open>
  The source computes the interval in \<^verbatim>\<open>float\<close>. The conversions it uses are parameters
  of the model: \<open>strtof\<close> gives the value and the number of characters read,
  \<open>fmul x k\<close> is \<^verbatim>\<open>x * k\<close>, \<open>to_int x\<close> is \<^verbatim>\<open>(int) x\<close>, and \<open>frac_ns x\<close> is
  \<^verbatim>\<open>(x - (int) x) * NS_IN_SEC\<close> converted to \<^verbatim>\<open>long\<close>.
\<close>

record 'f float_ops =
  strtof :: "string \<Rightarrow> 'f \<times> nat"
  fmul :: "'f \<Rightarrow> int \<Rightarrow> 'f"
  to_int :: "'f \<Rightarrow> int"
  frac_ns :: "'f \<Rightarrow> int"

text \<open>
  The examples further down are about command lines without an interval option, where
  \<^verbatim>\<open>parse_arguments\<close> applies none of these conversions: each is proved for every
  \<open>ops\<close>. Where a closed statement needs a value for \<open>ops\<close>, it is \<open>no_float\<close>, which
  converts nothing and is not a model of the C library.
\<close>

definition no_float :: "unit float_ops" where
  "no_float = \<lparr> strtof = (\<lambda>s. ((), 0)), fmul = (\<lambda>x k. ()), to_int = (\<lambda>x. 0), frac_ns = (\<lambda>x. 0) \<rparr>"

text \<open>
  \<^verbatim>\<open>getopt_long\<close> of the C library with \<^verbatim>\<open>POSIXLY_CORRECT\<close> set (line 79), for
  the option string and the table of lines 57-67 and 80. Its state is the list of the elements
  of \<^verbatim>\<open>argv\<close> not yet looked at and the rest of the group of short options it is in.
  The results: there is no further option, with the elements that are left (the return value
  \<open>-1\<close>; \<^verbatim>\<open>optind\<close> is the index of the first of them); or an option character with
  \<^verbatim>\<open>optarg\<close> (empty for an option without argument, where the source does not read it)
  and the new state. \<^verbatim>\<open>'?'\<close> is the character for an unknown or ambiguous option and for
  a missing argument.
\<close>

datatype has_arg = no_argument | required_argument

definition optstring :: string where
  "optstring = ''t:i:ezdhpVx''"

definition long_options :: "(string \<times> has_arg \<times> char) list" where
  "long_options =
     [(''times'', required_argument, CHR ''t''),
      (''interval'', required_argument, CHR ''i''),
      (''precise'', no_argument, CHR ''p''),
      (''untilerr'', no_argument, CHR ''e''),
      (''untilsuccess'', no_argument, CHR ''s''),
      (''noshell'', no_argument, CHR ''x''),
      (''version'', no_argument, CHR ''V''),
      (''help'', no_argument, CHR ''h'')]"

datatype getopt_result = No_more "string list" | Opt char string "string list" string

fun short_has_arg :: "string \<Rightarrow> char \<Rightarrow> has_arg option" where
  "short_has_arg [] c = None"
| "short_has_arg (x # xs) c =
     (if x = c then Some (if take 1 xs = '':'' then required_argument else no_argument)
      else short_has_arg xs c)"

definition short_option :: "char \<Rightarrow> string \<Rightarrow> string list \<Rightarrow> getopt_result" where
  "short_option c cs rest =
     (case (if c = CHR '':'' \<or> c = CHR '';'' then None else short_has_arg optstring c) of
        None \<Rightarrow> Opt (CHR ''?'') [] rest cs
      | Some no_argument \<Rightarrow> Opt c [] rest cs
      | Some required_argument \<Rightarrow>
          if cs \<noteq> [] then Opt c cs rest []
          else (case rest of
                  [] \<Rightarrow> Opt (CHR ''?'') [] rest []
                | a # rest' \<Rightarrow> Opt c a rest' []))"

definition long_option :: "string \<Rightarrow> string list \<Rightarrow> getopt_result" where
  "long_option text rest =
     (let name = takeWhile (\<lambda>c. c \<noteq> CHR ''='') text;
          has_value = (length name < length text);
          exact = filter (\<lambda>(n, h, v). n = name) long_options;
          abbreviated = filter (\<lambda>(n, h, v). prefix name n) long_options
      in case (if exact \<noteq> [] then Some (hd exact)
               else if length abbreviated = 1 then Some (hd abbreviated) else None) of
           None \<Rightarrow> Opt (CHR ''?'') [] rest []
         | Some (n, h, v) \<Rightarrow>
             if has_value then
               (if h = required_argument then Opt v (drop (Suc (length name)) text) rest []
                else Opt (CHR ''?'') [] rest [])
             else if h = required_argument then
               (case rest of
                  [] \<Rightarrow> Opt (CHR ''?'') [] rest []
                | a # rest' \<Rightarrow> Opt v a rest' [])
             else Opt v [] rest [])"

fun getopt_long :: "string list \<Rightarrow> string \<Rightarrow> getopt_result" where
  "getopt_long args (c # cs) = short_option c cs args"
| "getopt_long [] [] = No_more []"
| "getopt_long (a # rest) [] =
     (if a = ''--'' then No_more rest
      else if take 2 a = ''--'' then long_option (drop 2 a) rest
      else if take 1 a = ''-'' \<and> a \<noteq> ''-'' then short_option (a ! 1) (drop 2 a) rest
      else No_more (a # rest))"

text \<open>Lines 95-120: the interval option. The result is the text of the error or the new globals.\<close>

definition set_interval :: "'f float_ops \<Rightarrow> string \<Rightarrow> globals \<Rightarrow> message + globals" where
  "set_interval ops optarg g =
     (case strtof ops optarg of
        (x, n) \<Rightarrow>
          if n = 0 then Inl USAGE
          else (case (case drop n optarg of
                        [] \<Rightarrow> Some x
                      | u # rest \<Rightarrow>
                          if u = CHR ''d'' then Some (fmul ops x 86400)
                          else if u = CHR ''h'' then Some (fmul ops x 3600)
                          else if u = CHR ''m'' then Some (fmul ops x 60)
                          else if u = CHR ''s'' then Some x
                          else None) of
                  None \<Rightarrow> Inl Bad_unit
                | Some y \<Rightarrow>
                    Inr (g\<lparr>interval_ts := \<lparr>tv_sec = to_int ops y, tv_nsec = frac_ns ops y\<rparr>\<rparr>)))"

text \<open>
  Lines 80-144: the loop over the options. It ends with \<open>Exit_now\<close> and the value of
  \<^verbatim>\<open>*return_val\<close> where the source returns from inside the loop, and with
  \<open>Options_done\<close> and the elements left where \<^verbatim>\<open>getopt_long\<close> returns \<open>-1\<close>. The
  message \<^verbatim>\<open>getopt_long\<close> itself writes (\<^verbatim>\<open>opterr\<close> is 1) is \<open>Getopt_message\<close>.
\<close>

datatype parsed = Exit_now int globals printed | Options_done "string list" globals printed

definition consumed :: "string list \<Rightarrow> string \<Rightarrow> nat" where
  "consumed args nextchar = sum_list (map (\<lambda>a. Suc (length a)) args) + length nextchar"

function parse_options ::
  "'f float_ops \<Rightarrow> string list \<Rightarrow> string \<Rightarrow> globals \<Rightarrow> printed \<Rightarrow> parsed" where
  "parse_options ops args nextchar g out =
     (case getopt_long args nextchar of
        No_more rest \<Rightarrow> Options_done rest g out
      | Opt c optarg args' nextchar' \<Rightarrow>
          if c = CHR ''?'' then Exit_now 0 g (out @ [(Stderr, Getopt_message)])
          else if c = CHR ''t'' then
            (let g' = g\<lparr>times_n := int_of_long (fst (strtol optarg))\<rparr>
             in if snd (strtol optarg) = 0 then Exit_now 1 g' (out @ [(Stderr, USAGE)])
                else parse_options ops args' nextchar' g' out)
          else if c = CHR ''d'' then
            parse_options ops args' nextchar' (g\<lparr>debug := True\<rparr>) (out @ [(Stdout, Debug_enabled)])
          else if c = CHR ''i'' then
            (case set_interval ops optarg g of
               Inl m \<Rightarrow> Exit_now 1 g (out @ [(Stderr, m)])
             | Inr g' \<Rightarrow> parse_options ops args' nextchar' g' out)
          else if c = CHR ''p'' then parse_options ops args' nextchar' (g\<lparr>precise := True\<rparr>) out
          else if c = CHR ''e'' then parse_options ops args' nextchar' (g\<lparr>exit_on_error := True\<rparr>) out
          else if c = CHR ''s'' then parse_options ops args' nextchar' (g\<lparr>exit_on_success := True\<rparr>) out
          else if c = CHR ''x'' then parse_options ops args' nextchar' (g\<lparr>use_exec := True\<rparr>) out
          else if c = CHR ''V'' then Exit_now 0 g (out @ [(Stdout, REPEAT_VERSION)])
          else if c = CHR ''h'' then Exit_now 0 g (out @ [(Stdout, USAGE)])
          else Exit_now 1 g (out @ [(Stderr, Cant_happen)]))"
  by pat_completeness auto

lemma short_option_consumes:
  "short_option c cs rest = Opt c' optarg args' nextchar' \<Longrightarrow>
     consumed args' nextchar' < consumed rest (c # cs)"
  by (auto simp add: short_option_def consumed_def split: option.splits has_arg.splits
        if_splits list.splits)

lemma long_option_consumes:
  "long_option text rest = Opt c' optarg args' nextchar' \<Longrightarrow>
     consumed args' nextchar' \<le> consumed rest []"
  by (auto simp add: long_option_def consumed_def Let_def split: option.splits has_arg.splits
        if_splits list.splits prod.splits)

lemma getopt_long_consumes:
  assumes "getopt_long args nextchar = Opt c optarg args' nextchar'"
  shows "consumed args' nextchar' < consumed args nextchar"
proof (cases nextchar)
  case (Cons c cs)
  with assms show ?thesis
    by (simp add: short_option_consumes)
next
  case Nil
  note nextchar = this
  show ?thesis
  proof (cases args)
    case Nil
    with nextchar assms show ?thesis by simp
  next
    case (Cons a rest)
    show ?thesis
    proof (cases "take 2 a = ''--''")
      case True
      with assms nextchar Cons have "long_option (drop 2 a) rest = Opt c optarg args' nextchar'"
        by (simp split: if_splits)
      from long_option_consumes [OF this] show ?thesis
        by (simp add: Cons nextchar consumed_def)
    next
      case False
      with assms nextchar Cons
      have opt: "short_option (a ! 1) (drop 2 a) rest = Opt c optarg args' nextchar'"
        and dash: "take 1 a = ''-''" "a \<noteq> ''-''"
        by (simp_all split: if_splits)
      from dash have "2 \<le> length a"
        by (cases a; cases "tl a") auto
      with short_option_consumes [OF opt] show ?thesis
        by (simp add: Cons nextchar consumed_def)
    qed
  qed
qed

termination parse_options
  by (relation "measure (\<lambda>(ops, args, nextchar, g, out). consumed args nextchar)")
     (auto dest: getopt_long_consumes)

declare parse_options.simps [simp del]

text \<open>
  The arguments of the times options of a command line, in the order in which
  \<^verbatim>\<open>getopt_long\<close> yields them. The last one is the one whose value \<^verbatim>\<open>times\<close> keeps.
\<close>

function times_optargs :: "string list \<Rightarrow> string \<Rightarrow> string list" where
  "times_optargs args nextchar =
     (case getopt_long args nextchar of
        No_more rest \<Rightarrow> []
      | Opt c optarg args' nextchar' \<Rightarrow>
          (if c = CHR ''t'' then [optarg] else []) @ times_optargs args' nextchar')"
  by pat_completeness auto

termination times_optargs
  by (relation "measure (\<lambda>(args, nextchar). consumed args nextchar)")
     (auto dest: getopt_long_consumes)

declare times_optargs.simps [simp del]

text \<open>
  Lines 157-173: the command for the shell is written into a buffer of
  \<^verbatim>\<open>total_len + 1\<close> zero bytes. \<open>strcpy buf p s\<close> writes the string and its terminating
  zero byte at offset \<open>p\<close>, and is \<open>None\<close> when that would write past the end of the
  buffer, as is the loop when it would write the space there. The string \<^verbatim>\<open>command\<close>
  points to is the buffer up to its first zero byte.
\<close>

definition NUL :: char where
  "NUL = CHR 0x00"

definition strcpy :: "char list \<Rightarrow> nat \<Rightarrow> string \<Rightarrow> char list option" where
  "strcpy buf p s =
     (if p + length s + 1 \<le> length buf
      then Some (take p buf @ s @ [NUL] @ drop (p + length s + 1) buf) else None)"

fun join_loop :: "char list \<Rightarrow> nat \<Rightarrow> string list \<Rightarrow> char list option" where
  "join_loop buf write_pt [] = Some buf"
| "join_loop buf write_pt (a # rest) =
     (if write_pt < length buf then
        (case strcpy (buf[write_pt := CHR '' '']) (Suc write_pt) a of
           None \<Rightarrow> None
         | Some buf' \<Rightarrow> join_loop buf' (Suc write_pt + length a) rest)
      else None)"

definition join_command :: "string list \<Rightarrow> string option" where
  "join_command toks =
     (let total_len = (length toks - 1) + sum_list (map length toks);
          buf = replicate (total_len + 1) NUL
      in case strcpy buf 0 (hd toks) of
           None \<Rightarrow> None
         | Some buf1 \<Rightarrow>
             (case join_loop buf1 (length (hd toks)) (tl toks) of
                None \<Rightarrow> None
              | Some buf2 \<Rightarrow> Some (takeWhile (\<lambda>c. c \<noteq> NUL) buf2)))"

text \<open>
  \<^verbatim>\<open>parse_arguments\<close> (lines 55-177): the value returned, \<^verbatim>\<open>*return_val\<close>, the
  globals and what was written. \<^verbatim>\<open>argv[0]\<close> is the name of the program, so the
  options start at the second element; the model is of a call with a non-empty \<^verbatim>\<open>argv\<close>.
  \<open>command\<close> stays \<open>None\<close> if the writes of the join would leave the buffer.
\<close>

definition parse_arguments :: "'f float_ops \<Rightarrow> string list \<Rightarrow> bool \<times> int \<times> globals \<times> printed" where
  "parse_arguments ops argv =
     (case parse_options ops (tl argv) [] initial_globals [] of
        Exit_now return_val g out \<Rightarrow> (True, return_val, g, out)
      | Options_done rest g out \<Rightarrow>
          let arg_count = length rest
          in if arg_count = 0 then (True, 1, g, out @ [(Stderr, USAGE)])
             else let g1 = g\<lparr>cmd_arg_idx := length argv - length rest\<rparr>;
                      g2 = (if \<not> use_exec g1 then g1\<lparr>command := join_command rest\<rparr> else g1)
                  in (False, 0, g2, out))"

text \<open>\<^verbatim>\<open>main\<close> (lines 191-286).\<close>

definition main :: "'f float_ops \<Rightarrow> nat \<Rightarrow> world \<Rightarrow> string list \<Rightarrow> (int \<times> run_state) option" where
  "main ops fuel w argv =
     (case parse_arguments ops argv of
        (exit_now, exit_val, g, out) \<Rightarrow>
          if exit_now then Some (exit_val, initial_state out) else run fuel w g out)"

text \<open>
  What section 4.1 of the specification asks of the command string: the tokens in order,
  with one space between neighbours.
\<close>

fun space_joined :: "string list \<Rightarrow> string" where
  "space_joined [] = []"
| "space_joined [a] = a"
| "space_joined (a # b # rest) = a @ '' '' @ space_joined (b # rest)"

section \<open>Properties of the addition\<close>

lemma uint32_of_small:
  "0 \<le> (x::int) \<Longrightarrow> x < 2000000000 \<Longrightarrow> x mod 2 ^ 32 = x"
  by (rule mod_pos_pos_trivial) simp_all

lemma div_once:
  fixes x k :: int
  assumes "k \<le> x" and "x < k + k"
  shows "x div k = 1"
proof -
  have "0 \<le> x - k" and "x - k < k" and "0 < k"
    using assms by linarith+
  then have "(x - k) div k = 0"
    by (simp only: div_pos_pos_trivial)
  moreover have "x div k = (x - k) div k + 1"
    using \<open>0 < k\<close> \<open>k \<le> x\<close> by (rule div_pos_geq)
  ultimately show ?thesis by simp
qed

lemma mod_once:
  fixes x k :: int
  assumes "k \<le> x" and "x < k + k"
  shows "x mod k = x - k"
proof -
  have "0 \<le> x - k" and "x - k < k" and "0 < k"
    using assms by linarith+
  have "x mod k = (x - k) mod k"
    using \<open>0 < k\<close> \<open>k \<le> x\<close> by (rule mod_pos_geq)
  also have "\<dots> = x - k"
    using \<open>0 \<le> x - k\<close> \<open>x - k < k\<close> by (rule mod_pos_pos_trivial)
  finally show ?thesis .
qed

lemma div_ns_carry:
  "1000000000 \<le> (x::int) \<Longrightarrow> x < 2000000000 \<Longrightarrow> x div 1000000000 = 1"
  by (rule div_once) simp_all

lemma mod_ns_carry:
  "1000000000 \<le> (x::int) \<Longrightarrow> x < 2000000000 \<Longrightarrow> x mod 1000000000 = x - 1000000000"
  by (rule mod_once) simp_all

lemma smod_ns_small:
  "0 \<le> (x::int) \<Longrightarrow> x < 1000000000 \<Longrightarrow> x smod 1000000000 = x"
  by (simp add: smod_mod_positive)

lemma sdiv_ns_small:
  "0 \<le> (x::int) \<Longrightarrow> x < 1000000000 \<Longrightarrow> x sdiv 1000000000 = 0"
  by (simp add: signed_divide_int_def)

lemma to_time_t_id:
  assumes "0 \<le> x" and "x \<le> 9223372036854775807"
  shows "to_time_t x = x"
proof -
  have "(2::int) ^ 63 = 9223372036854775808"
    by simp
  with assms have "- (2 ^ 63) \<le> x" and "x < 2 ^ 63"
    by linarith+
  then show ?thesis
    by (simp only: to_time_t_def signed_take_bit_int_eq_self)
qed

lemma timespec_add_normal_form:
  assumes "normalized a" and "normalized b" and "tv_sec a + tv_sec b < TIME_T_MAX"
  shows "timespec_add a b =
           \<lparr> tv_sec = tv_sec a + tv_sec b + (if tv_nsec a + tv_nsec b \<ge> NS_IN_SEC then 1 else 0),
             tv_nsec = (if tv_nsec a + tv_nsec b \<ge> NS_IN_SEC
                        then tv_nsec a + tv_nsec b - NS_IN_SEC else tv_nsec a + tv_nsec b) \<rparr>"
proof -
  have ra: "0 \<le> tv_nsec a" "tv_nsec a < 1000000000"
    and rb: "0 \<le> tv_nsec b" "tv_nsec b < 1000000000"
    using assms by (simp_all add: normalized_def NS_IN_SEC_def)
  have sa: "0 \<le> tv_sec a" and sb: "0 \<le> tv_sec b"
    using assms by (simp_all add: normalized_def)
  have top: "tv_sec a + tv_sec b + 1 \<le> 9223372036854775807"
    using assms(3) by (simp add: TIME_T_MAX_def)
  have lo: "0 \<le> tv_nsec a + tv_nsec b" and hi: "tv_nsec a + tv_nsec b < 2000000000"
    using ra rb by linarith+
  note ma = smod_ns_small [OF ra] sdiv_ns_small [OF ra]
  note mb = smod_ns_small [OF rb] sdiv_ns_small [OF rb]
  note wrap = uint32_of_small [OF lo hi]
  have unfolded: "timespec_add a b =
      \<lparr> tv_sec = to_time_t (tv_sec a + tv_sec b + 0 + 0 + (tv_nsec a + tv_nsec b) div 1000000000),
        tv_nsec = (tv_nsec a + tv_nsec b) mod 1000000000 \<rparr>"
    by (simp only: timespec_add_def NS_IN_SEC_def Let_def ma mb wrap)
  show ?thesis
  proof (cases "tv_nsec a + tv_nsec b \<ge> 1000000000")
    case True
    have "0 \<le> tv_sec a + tv_sec b + 1"
      using sa sb by linarith
    then have fits: "to_time_t (tv_sec a + tv_sec b + 1) = tv_sec a + tv_sec b + 1"
      using top by (rule to_time_t_id)
    show ?thesis
      by (simp only: unfolded NS_IN_SEC_def True if_True
            div_ns_carry [OF True hi] mod_ns_carry [OF True hi] add_0_right fits)
  next
    case False
    then have lt: "tv_nsec a + tv_nsec b < 1000000000"
      by (rule not_le_imp_less)
    note small = div_pos_pos_trivial [OF lo lt] mod_pos_pos_trivial [OF lo lt]
    have "0 \<le> tv_sec a + tv_sec b" and "tv_sec a + tv_sec b \<le> 9223372036854775807"
      using sa sb top by linarith+
    then have fits: "to_time_t (tv_sec a + tv_sec b) = tv_sec a + tv_sec b"
      by (rule to_time_t_id)
    show ?thesis
      by (simp only: unfolded NS_IN_SEC_def False if_False small add_0_right fits)
  qed
qed

lemma timespec_add_normalized:
  "normalized a \<Longrightarrow> normalized b \<Longrightarrow> tv_sec a + tv_sec b < TIME_T_MAX \<Longrightarrow>
     normalized (timespec_add a b)"
  by (simp add: timespec_add_normal_form) (simp add: normalized_def NS_IN_SEC_def)

lemma total_ns_timespec_add:
  "normalized a \<Longrightarrow> normalized b \<Longrightarrow> tv_sec a + tv_sec b < TIME_T_MAX \<Longrightarrow>
     total_ns (timespec_add a b) = total_ns a + total_ns b"
  by (simp add: timespec_add_normal_form) (simp add: total_ns_def NS_IN_SEC_def)

lemma tv_sec_timespec_add:
  "normalized a \<Longrightarrow> normalized b \<Longrightarrow> tv_sec a + tv_sec b < TIME_T_MAX \<Longrightarrow>
     tv_sec (timespec_add a b) \<le> tv_sec a + tv_sec b + 1"
  by (simp add: timespec_add_normal_form)

lemma normalized_eqI:
  assumes "normalized s" and "normalized t" and "total_ns s = total_ns t"
  shows "s = t"
proof -
  have s: "0 \<le> tv_nsec s" "tv_nsec s < 1000000000" and t: "0 \<le> tv_nsec t" "tv_nsec t < 1000000000"
    using assms(1,2) by (simp_all add: normalized_def NS_IN_SEC_def)
  have eq: "tv_sec s * 1000000000 + tv_nsec s = tv_sec t * 1000000000 + tv_nsec t"
    using assms(3) by (simp add: total_ns_def NS_IN_SEC_def)
  have "(tv_sec s * 1000000000 + tv_nsec s) div 1000000000 = tv_sec s"
    "(tv_sec t * 1000000000 + tv_nsec t) div 1000000000 = tv_sec t"
    using s t by simp_all
  with eq have sec: "tv_sec s = tv_sec t" by simp
  with eq have "tv_nsec s = tv_nsec t" by simp
  with sec show ?thesis by simp
qed

lemma timespec_add_assoc:
  assumes "normalized a" and "normalized b" and "normalized c"
    and "tv_sec a + tv_sec b + tv_sec c + 1 < TIME_T_MAX"
  shows "timespec_add (timespec_add a b) c = timespec_add a (timespec_add b c)"
    and "total_ns (timespec_add (timespec_add a b) c) = total_ns a + total_ns b + total_ns c"
proof -
  have sa: "0 \<le> tv_sec a" and sb: "0 \<le> tv_sec b" and sc: "0 \<le> tv_sec c"
    using assms(1-3) by (simp_all add: normalized_def)
  have ab: "tv_sec a + tv_sec b < TIME_T_MAX" and bc: "tv_sec b + tv_sec c < TIME_T_MAX"
    using sa sc assms(4) by linarith+
  have ab_c: "tv_sec (timespec_add a b) + tv_sec c < TIME_T_MAX"
    using tv_sec_timespec_add [OF assms(1,2) ab] assms(4) by linarith
  have a_bc: "tv_sec a + tv_sec (timespec_add b c) < TIME_T_MAX"
    using tv_sec_timespec_add [OF assms(2,3) bc] assms(4) by linarith
  note nab = timespec_add_normalized [OF assms(1,2) ab]
  note nbc = timespec_add_normalized [OF assms(2,3) bc]
  have left: "total_ns (timespec_add (timespec_add a b) c) = total_ns a + total_ns b + total_ns c"
    by (simp only: total_ns_timespec_add [OF nab assms(3) ab_c]
          total_ns_timespec_add [OF assms(1,2) ab])
  have right: "total_ns (timespec_add a (timespec_add b c)) = total_ns a + total_ns b + total_ns c"
    by (simp only: total_ns_timespec_add [OF assms(1) nbc a_bc]
          total_ns_timespec_add [OF assms(2,3) bc] add.assoc)
  show "timespec_add (timespec_add a b) c = timespec_add a (timespec_add b c)"
  proof (rule normalized_eqI)
    show "normalized (timespec_add (timespec_add a b) c)"
      using nab assms(3) ab_c by (rule timespec_add_normalized)
    show "normalized (timespec_add a (timespec_add b c))"
      using assms(1) nbc a_bc by (rule timespec_add_normalized)
    show "total_ns (timespec_add (timespec_add a b) c) = total_ns (timespec_add a (timespec_add b c))"
      by (simp only: left right)
  qed
  show "total_ns (timespec_add (timespec_add a b) c) = total_ns a + total_ns b + total_ns c"
    by (fact left)
qed

text \<open>
  Claim C3, with the bound it needs. For time values \<open>a\<close>, \<open>b\<close> (and \<open>c\<close>) with
  non-negative components and nanoseconds below 1,000,000,000, whose seconds and one carry add
  up to no more than the largest \<^verbatim>\<open>time_t\<close>: \<^verbatim>\<open>timespec_add\<close> carries exactly one
  second when the nanosecond sum reaches 1,000,000,000 and none otherwise, the nanoseconds of
  the result lie in [0, 1,000,000,000), the total number of nanoseconds of the result is the
  sum of the totals, and (where the three values and two carries fit) repeated additions
  associate, so no nanosecond is lost or gained.
\<close>

theorem timespec_add_carry:
  assumes "normalized a" and "normalized b" and "normalized c"
    and "tv_sec a + tv_sec b < TIME_T_MAX"
  shows "tv_sec (timespec_add a b) =
           tv_sec a + tv_sec b + (if tv_nsec a + tv_nsec b \<ge> 1000000000 then 1 else 0)
       \<and> 0 \<le> tv_nsec (timespec_add a b) \<and> tv_nsec (timespec_add a b) < 1000000000
       \<and> total_ns (timespec_add a b) = total_ns a + total_ns b
       \<and> (tv_sec a + tv_sec b + tv_sec c + 1 < TIME_T_MAX \<longrightarrow>
            timespec_add (timespec_add a b) c = timespec_add a (timespec_add b c)
            \<and> total_ns (timespec_add (timespec_add a b) c)
                = total_ns a + total_ns b + total_ns c)"
proof (intro conjI impI)
  show "tv_sec (timespec_add a b) =
           tv_sec a + tv_sec b + (if tv_nsec a + tv_nsec b \<ge> 1000000000 then 1 else 0)"
    using assms(1,2,4) by (simp add: timespec_add_normal_form) (simp add: NS_IN_SEC_def)
  have "normalized (timespec_add a b)"
    using assms(1,2,4) by (rule timespec_add_normalized)
  then show "0 \<le> tv_nsec (timespec_add a b)" and "tv_nsec (timespec_add a b) < 1000000000"
    by (simp_all add: normalized_def NS_IN_SEC_def)
  show "total_ns (timespec_add a b) = total_ns a + total_ns b"
    using assms(1,2,4) by (rule total_ns_timespec_add)
next
  assume fits: "tv_sec a + tv_sec b + tv_sec c + 1 < TIME_T_MAX"
  show "timespec_add (timespec_add a b) c = timespec_add a (timespec_add b c)"
    using assms(1-3) fits by (rule timespec_add_assoc)
  show "total_ns (timespec_add (timespec_add a b) c) = total_ns a + total_ns b + total_ns c"
    using assms(1-3) fits by (rule timespec_add_assoc)
qed

theorem timespec_add_carry_witness:
  "normalized \<lparr>tv_sec = 1, tv_nsec = 600000000\<rparr>
   \<and> normalized \<lparr>tv_sec = 2, tv_nsec = 700000000\<rparr>
   \<and> normalized \<lparr>tv_sec = 0, tv_nsec = 900000000\<rparr>
   \<and> tv_sec (timespec_add \<lparr>tv_sec = 1, tv_nsec = 600000000\<rparr>
                             \<lparr>tv_sec = 2, tv_nsec = 700000000\<rparr>) = 4
   \<and> timespec_add (timespec_add \<lparr>tv_sec = 1, tv_nsec = 600000000\<rparr>
                                   \<lparr>tv_sec = 2, tv_nsec = 700000000\<rparr>)
                     \<lparr>tv_sec = 0, tv_nsec = 900000000\<rparr>
       = timespec_add \<lparr>tv_sec = 1, tv_nsec = 600000000\<rparr>
           (timespec_add \<lparr>tv_sec = 2, tv_nsec = 700000000\<rparr>
                         \<lparr>tv_sec = 0, tv_nsec = 900000000\<rparr>)"
proof -
  have a: "normalized \<lparr>tv_sec = 1, tv_nsec = 600000000\<rparr>"
    and b: "normalized \<lparr>tv_sec = 2, tv_nsec = 700000000\<rparr>"
    and c: "normalized \<lparr>tv_sec = 0, tv_nsec = 900000000\<rparr>"
    by (simp_all add: normalized_def NS_IN_SEC_def)
  have fits: "tv_sec \<lparr>tv_sec = 1, tv_nsec = 600000000\<rparr>
                + tv_sec \<lparr>tv_sec = 2, tv_nsec = 700000000\<rparr> < TIME_T_MAX"
    by (simp add: TIME_T_MAX_def)
  have all: "tv_sec \<lparr>tv_sec = 1, tv_nsec = 600000000\<rparr>
                + tv_sec \<lparr>tv_sec = 2, tv_nsec = 700000000\<rparr>
                + tv_sec \<lparr>tv_sec = 0, tv_nsec = 900000000\<rparr> + 1 < TIME_T_MAX"
    by (simp add: TIME_T_MAX_def)
  from timespec_add_carry [OF a b c fits] all a b c show ?thesis
    by simp
qed

text \<open>
  Claim C3, as stated for all time values with non-negative components, fails where the
  seconds leave the range of \<^verbatim>\<open>time_t\<close>: one nanosecond added to the largest time value
  gives the smallest \<^verbatim>\<open>time_t\<close> as seconds, and the total is not the sum of the totals.
\<close>

theorem timespec_add_overflows:
  "normalized \<lparr>tv_sec = 9223372036854775807, tv_nsec = 999999999\<rparr>
   \<and> normalized \<lparr>tv_sec = 0, tv_nsec = 1\<rparr>
   \<and> timespec_add \<lparr>tv_sec = 9223372036854775807, tv_nsec = 999999999\<rparr> \<lparr>tv_sec = 0, tv_nsec = 1\<rparr>
       = \<lparr>tv_sec = - 9223372036854775808, tv_nsec = 0\<rparr>
   \<and> total_ns (timespec_add \<lparr>tv_sec = 9223372036854775807, tv_nsec = 999999999\<rparr>
                              \<lparr>tv_sec = 0, tv_nsec = 1\<rparr>)
       \<noteq> total_ns \<lparr>tv_sec = 9223372036854775807, tv_nsec = 999999999\<rparr>
         + total_ns \<lparr>tv_sec = 0, tv_nsec = 1\<rparr>"
  by code_simp

section \<open>Properties of the status words\<close>

lemma hi_byte: "drop_bit 8 (s AND push_bit 8 (mask 8)) = take_bit 8 (drop_bit 8 (s::int))"
  by (rule bit_eqI) (auto simp add: bit_simps)

lemma WEXITSTATUS_eq: "WEXITSTATUS s = (s div 256) mod 256"
proof -
  have "(0xff00::int) = push_bit 8 (mask 8)"
    by (simp add: mask_eq_exp_minus_1)
  then have "WEXITSTATUS s = take_bit 8 (drop_bit 8 s)"
    by (simp only: WEXITSTATUS_def hi_byte)
  then show ?thesis
    by (simp add: drop_bit_eq_div take_bit_eq_mod)
qed

lemma low_seven: "(s::int) AND 0x7f = s mod 128"
proof -
  have "(0x7f::int) = mask 7"
    by (simp add: mask_eq_exp_minus_1)
  then have "s AND 0x7f = take_bit 7 s"
    by (simp only: take_bit_eq_mask)
  then show ?thesis
    by (simp add: take_bit_eq_mod)
qed

lemma WTERMSIG_eq: "WTERMSIG s = s mod 128"
  by (simp only: WTERMSIG_def low_seven)

lemma signed_char_test:
  assumes "0 \<le> (x::int)" and "x < 128"
  shows "0 < drop_bit 1 (signed_take_bit 7 (x + 1)) \<longleftrightarrow> 1 \<le> x \<and> x \<le> 126"
proof (cases "x = 127")
  case True
  then show ?thesis by (simp add: drop_bit_eq_div)
next
  case False
  with assms have le: "x \<le> 126" by linarith
  with assms have "signed_take_bit 7 (x + 1) = x + 1"
    by (simp add: signed_take_bit_int_eq_self)
  moreover have "0 < (x + 1) div 2 \<longleftrightarrow> 1 \<le> x"
    by (simp add: pos_imp_zdiv_pos_iff)
  ultimately show ?thesis
    using le by (simp add: drop_bit_eq_div)
qed

lemma WIFSIGNALED_eq: "WIFSIGNALED s \<longleftrightarrow> 1 \<le> s mod 128 \<and> s mod 128 \<le> 126"
proof -
  have "WIFSIGNALED s \<longleftrightarrow> 0 < drop_bit 1 (signed_take_bit 7 (s mod 128 + 1))"
    by (simp only: WIFSIGNALED_def low_seven)
  also have "\<dots> \<longleftrightarrow> 1 \<le> s mod 128 \<and> s mod 128 \<le> 126"
    by (rule signed_char_test) simp_all
  finally show ?thesis .
qed

lemma take_bit_and_push_bit: "take_bit n (a::int) AND push_bit n b = 0"
  by (rule bit_eqI) (auto simp add: bit_simps)

lemma or_core_flag:
  assumes "0 \<le> (sig::int)" and "sig < 128"
  shows "sig OR 0x80 = sig + 128"
proof -
  have "sig = take_bit 7 sig"
    using assms by (simp add: take_bit_int_eq_self)
  moreover have "(0x80::int) = push_bit 7 1"
    by simp
  ultimately have "sig AND 0x80 = take_bit 7 sig AND push_bit 7 1"
    by simp
  also have "\<dots> = 0"
    by (rule take_bit_and_push_bit)
  finally have "sig + 0x80 = sig OR 0x80"
    by (rule disjunctive_add_eq_or)
  then show ?thesis by simp
qed

lemma status_word_signaled:
  assumes "1 \<le> sig" and "sig \<le> 64"
  shows "status_word (Signaled sig core) = sig + (if core then 128 else 0)"
  using assms by (simp add: status_word_def or_core_flag)

lemma status_word_exit: "status_word (NormalExit code) = code * 256"
  by (simp add: status_word_def push_bit_eq_mult)

lemma exited_status:
  assumes "0 \<le> code" and "code \<le> 255"
  shows "WEXITSTATUS (status_word (NormalExit code)) = code"
    and "\<not> WIFSIGNALED (status_word (NormalExit code))"
    and "0 \<le> status_word (NormalExit code)"
  using assms by (simp_all add: status_word_exit WEXITSTATUS_eq WIFSIGNALED_eq)

lemma signaled_status:
  assumes "1 \<le> sig" and "sig \<le> 64"
  shows "WEXITSTATUS (status_word (Signaled sig core)) = 0"
    and "WIFSIGNALED (status_word (Signaled sig core))"
    and "WTERMSIG (status_word (Signaled sig core)) = sig"
    and "0 \<le> status_word (Signaled sig core)"
proof -
  let ?s = "sig + (if core then 128 else 0)"
  have range: "0 \<le> ?s" "?s < 256"
    using assms by simp_all
  have low: "?s mod 128 = sig"
    using assms by simp
  have "?s div 256 = 0"
    using range by (rule div_pos_pos_trivial)
  then show "WEXITSTATUS (status_word (Signaled sig core)) = 0"
    by (simp only: status_word_signaled [OF assms] WEXITSTATUS_eq) simp
  show "WIFSIGNALED (status_word (Signaled sig core))"
    using assms by (simp only: status_word_signaled [OF assms] WIFSIGNALED_eq low) simp
  show "WTERMSIG (status_word (Signaled sig core)) = sig"
    by (simp only: status_word_signaled [OF assms] WTERMSIG_eq low)
  show "0 \<le> status_word (Signaled sig core)"
    using range by (simp only: status_word_signaled [OF assms])
qed

section \<open>Stopping on the child's status\<close>






text \<open>
  Claim C4. The stop-on-success check should fire only for a child that ended by a normal
  exit with code 0. The source applies \<^verbatim>\<open>WEXITSTATUS\<close> to the status of a child that
  was killed by a signal, where it yields 0: with \<^verbatim>\<open>--untilsuccess\<close>, a command killed by
  signal 9 (status word 9) ends the process with status 0 after one launch.
\<close>

theorem stop_on_success_fires_for_killed_child:
  "main ops 1
     \<lparr>system_ret = (\<lambda>k. status_word (Signaled 9 False)), wait_ret = (\<lambda>k j. Wait_Failed EINTR),
       origin_ret = Clock_Failed, now_ret = (\<lambda>k. Clock_Failed), nanosleep_ret = (\<lambda>k j. 0)\<rparr>
     [''repeat'', ''--untilsuccess'', ''kill -9 $$'']
   = Some (0, \<lparr>next_exec = \<lparr>tv_sec = 0, tv_nsec = 0\<rparr>, launches = 1, clock_reads = 0,
                sleeps = [], written = []\<rparr>)"
  by code_simp

lemma evaluate_killed_child:
  assumes "well_formed (Signaled sig core)" and "exit_on_success g"
  shows "evaluate g (status_word (Signaled sig core)) = Stop 0"
proof -
  from assms(1) have "1 \<le> sig" "sig \<le> 64"
    by (simp_all add: well_formed_def)
  note facts = signaled_status [OF this, of core]
  define s where "s = status_word (Signaled sig core)"
  from assms(2) have "evaluate g s = Stop 0"
    by (simp add: evaluate_def facts [folded s_def])
  then show ?thesis
    by (simp add: s_def)
qed

section \<open>The bounds of the loops\<close>

lemma wait_loop_mono:
  "wait_loop fuel rets j = Some r \<Longrightarrow> fuel \<le> fuel' \<Longrightarrow> wait_loop fuel' rets j = Some r"
proof (induction fuel arbitrary: j fuel')
  case 0
  then show ?case by simp
next
  case (Suc fuel)
  then obtain f where f: "fuel' = Suc f" and le: "fuel \<le> f"
    by (cases fuel') auto
  show ?case
  proof (cases "rets j")
    case (Wait_Failed errno)
    with Suc.prems(1) Suc.IH [OF _ le] show ?thesis
      by (auto simp add: f split: if_splits)
  next
    case (Reaped status)
    with Suc.prems(1) show ?thesis
      by (auto simp add: f)
  qed
qed

lemma sleep_loop_mono:
  "sleep_loop fuel rets j = Some n \<Longrightarrow> fuel \<le> fuel' \<Longrightarrow> sleep_loop fuel' rets j = Some n"
proof (induction fuel arbitrary: j fuel')
  case 0
  then show ?case by simp
next
  case (Suc fuel)
  then obtain f where f: "fuel' = Suc f" and le: "fuel \<le> f"
    by (cases fuel') auto
  from Suc.prems(1) Suc.IH [OF _ le] show ?case
    by (auto simp add: f split: if_splits)
qed

lemma launch_mono:
  "launch fuel w g k = Some r \<Longrightarrow> fuel \<le> fuel' \<Longrightarrow> launch fuel' w g k = Some r"
  by (auto simp add: launch_def dest: wait_loop_mono split: if_splits)

lemma pause_mono:
  assumes "pause fuel w g k st = Some r" and "fuel \<le> fuel'"
  shows "pause fuel' w g k st = Some r"
proof (cases "sleep_loop fuel (nanosleep_ret w k) 0")
  case None
  with assms(1) show ?thesis
    by (auto simp add: pause_def split: if_splits clock_result.splits)
next
  case (Some n)
  from sleep_loop_mono [OF this assms(2)] Some assms(1) show ?thesis
    by (auto simp add: pause_def split: if_splits clock_result.splits)
qed

lemma loop_body_mono:
  assumes "loop_body fuel w g st = Some r" and "fuel \<le> fuel'"
  shows "loop_body fuel' w g st = Some r"
proof (cases "launch fuel w g (launches st)")
  case None
  with assms(1) show ?thesis
    by (simp add: loop_body_def Let_def)
next
  case (Some res)
  note later = launch_mono [OF Some assms(2)]
  show ?thesis
  proof (cases res)
    case (Wait_Failed errno)
    with assms(1) Some later show ?thesis
      by (simp add: loop_body_def Let_def)
  next
    case (Reaped ret)
    with assms Some later show ?thesis
      by (auto simp add: loop_body_def Let_def dest: pause_mono
            split: if_splits verdict.splits)
  qed
qed

lemma main_loop_mono:
  "main_loop fuel w g st = Some r \<Longrightarrow> fuel \<le> fuel' \<Longrightarrow> main_loop fuel' w g st = Some r"
proof (induction fuel arbitrary: g st fuel')
  case 0
  then show ?case by simp
next
  case (Suc fuel)
  then obtain f where f: "fuel' = Suc f" and le: "fuel \<le> f"
    by (cases fuel') auto
  from Suc.prems(1) obtain b where b: "loop_body fuel w g st = Some b"
    by (auto split: option.splits)
  note later = loop_body_mono [OF b le]
  show ?case
  proof (cases b)
    case (Continue g' st')
    with Suc.prems(1) b have "main_loop fuel w g' st' = Some r"
      by simp
    from Suc.IH [OF this le] later Continue show ?thesis
      by (simp add: f)
  next
    case (Exited code st')
    with Suc.prems(1) b later show ?thesis
      by (simp add: f)
  qed
qed

lemma run_mono:
  "run fuel w g out = Some r \<Longrightarrow> fuel \<le> fuel' \<Longrightarrow> run fuel' w g out = Some r"
  by (auto simp add: run_def dest: main_loop_mono split: sum.splits)

lemma wait_loop_ends:
  assumes "\<forall>i<j. rets (m + i) = Wait_Failed EINTR" and "rets (m + j) = Reaped status"
  shows "wait_loop (Suc j) rets m = Some (Reaped status)"
  using assms
proof (induction j arbitrary: m)
  case 0
  then show ?case by simp
next
  case (Suc j)
  from Suc.prems(1) have first: "rets m = Wait_Failed EINTR"
    by (metis add.right_neutral zero_less_Suc)
  have "\<forall>i<j. rets (Suc m + i) = Wait_Failed EINTR"
    using Suc.prems(1) by (metis Suc_less_eq add_Suc_shift)
  moreover have "rets (Suc m + j) = Reaped status"
    using Suc.prems(2) by simp
  ultimately have "wait_loop (Suc j) rets (Suc m) = Some (Reaped status)"
    by (rule Suc.IH)
  with first show ?case
    by simp
qed

lemma sleep_loop_ends:
  assumes "rets (m + j) = 0"
  shows "\<exists>n. sleep_loop (Suc j) rets m = Some n"
  using assms
proof (induction j arbitrary: m)
  case 0
  then show ?case by simp
next
  case (Suc j)
  then have "rets (Suc m + j) = 0"
    by simp
  from Suc.IH [OF this] show ?case
    by (cases "rets m = 0") simp_all
qed

section \<open>The repeat count\<close>

lemma loop_body_go_on:
  assumes "launch fuel w g (launches st) = Some (Reaped ret)" and "0 \<le> ret"
    and "evaluate g ret = Go_on"
  shows "loop_body fuel w g st =
           (let st2 = (if precise g
                       then st\<lparr>next_exec := timespec_add (next_exec st) (interval_ts g)\<rparr>
                       else st)\<lparr>launches := Suc (launches st)\<rparr>;
                g' = (if times_n g > 0 then g\<lparr>times_n := times_n g - 1\<rparr> else g)
            in if times_n g > 0 \<and> times_n g' = 0 then Some (Exited (WEXITSTATUS ret) st2)
               else pause fuel w g' (launches st) st2)"
  using assms by (simp add: loop_body_def Let_def)

lemma launch_child_exits:
  assumes "child_exits w g k code"
  shows "\<exists>fuel. launch fuel w g k = Some (Reaped (status_word (NormalExit code)))"
proof (cases "use_exec g")
  case True
  with assms obtain j where "\<forall>i<j. wait_ret w k (0 + i) = Wait_Failed EINTR"
    and "wait_ret w k (0 + j) = Reaped (status_word (NormalExit code))"
    by (auto simp add: child_exits_def)
  then have "wait_loop (Suc j) (wait_ret w k) 0 = Some (Reaped (status_word (NormalExit code)))"
    by (rule wait_loop_ends)
  with True have "launch (Suc j) w g k = Some (Reaped (status_word (NormalExit code)))"
    by (simp only: launch_def if_True)
  then show ?thesis ..
next
  case False
  with assms show ?thesis
    by (simp add: launch_def child_exits_def)
qed

lemma evaluate_normal_exit:
  assumes "0 \<le> code" and "code \<le> 255" and "\<not> exit_on_error g" and "\<not> exit_on_success g"
  shows "evaluate g (status_word (NormalExit code)) = Go_on"
proof -
  note facts = exited_status [OF assms(1,2)]
  define s where "s = status_word (NormalExit code)"
  from assms(3,4) have "evaluate g s = Go_on"
    by (simp add: evaluate_def facts [folded s_def])
  then show ?thesis
    by (simp add: s_def)
qed

lemma pause_continues:
  assumes "pause_ends w g k"
  shows "\<exists>fuel st'. pause fuel w g k st = Some (Continue g st')
           \<and> launches st' = launches st \<and> written st' = written st"
proof (cases "tv_sec (interval_ts g) \<noteq> 0 \<or> tv_nsec (interval_ts g) \<noteq> 0")
  case False
  then show ?thesis
    by (simp add: pause_def)
next
  case True
  with assms obtain j where clock: "precise g \<or> now_ret w k \<noteq> Clock_Failed"
    and zero: "nanosleep_ret w k (0 + j) = 0"
    by (auto simp add: pause_ends_def)
  from sleep_loop_ends [of "nanosleep_ret w k" 0 j, OF zero]
  obtain n where n: "sleep_loop (Suc j) (nanosleep_ret w k) 0 = Some n"
    by blast
  show ?thesis
  proof (cases "precise g")
    case precise: True
    with True n have "pause (Suc j) w g k st
        = Some (Continue g (st\<lparr>sleeps := sleeps st @ [next_exec st]\<rparr>))"
      by (simp add: pause_def)
    then show ?thesis
      by (intro exI [of _ "Suc j"] exI [of _ "st\<lparr>sleeps := sleeps st @ [next_exec st]\<rparr>"]) simp
  next
    case False
    with clock obtain now where now: "now_ret w k = Clock_Read now"
      by (cases "now_ret w k") auto
    define st1 where "st1 = st\<lparr>next_exec := timespec_add now (interval_ts g),
                                 clock_reads := Suc (clock_reads st)\<rparr>"
    from True False n now have "pause (Suc j) w g k st
        = Some (Continue g (st1\<lparr>sleeps := sleeps st1 @ [next_exec st1]\<rparr>))"
      by (simp add: pause_def st1_def)
    then show ?thesis
      by (intro exI [of _ "Suc j"] exI [of _ "st1\<lparr>sleeps := sleeps st1 @ [next_exec st1]\<rparr>"])
         (simp add: st1_def)
  qed
qed

lemma loop_body_counts:
  assumes child: "child_exits w g (launches st) code"
    and flags: "\<not> exit_on_error g" "\<not> exit_on_success g"
    and count: "0 < times_n g"
    and pause: "times_n g \<noteq> 1 \<Longrightarrow> pause_ends w g (launches st)"
  shows "\<exists>fuel st'. launches st' = Suc (launches st) \<and> written st' = written st \<and>
           loop_body fuel w g st =
             Some (if times_n g = 1 then Exited code st'
                   else Continue (g\<lparr>times_n := times_n g - 1\<rparr>) st')"
proof -
  from child have code: "0 \<le> code" "code \<le> 255"
    by (simp_all add: child_exits_def)
  define ret where "ret = status_word (NormalExit code)"
  define st2 where "st2 = (if precise g
                       then st\<lparr>next_exec := timespec_add (next_exec st) (interval_ts g)\<rparr>
                       else st)\<lparr>launches := Suc (launches st)\<rparr>"
  from launch_child_exits [OF child]
  obtain f1 where f1: "launch f1 w g (launches st) = Some (Reaped ret)"
    by (auto simp add: ret_def)
  have ret: "0 \<le> ret" "WEXITSTATUS ret = code"
    using exited_status [OF code] by (simp_all add: ret_def)
  have go: "evaluate g ret = Go_on"
    using evaluate_normal_exit [OF code flags] by (simp add: ret_def)
  have st2: "launches st2 = Suc (launches st)" "written st2 = written st"
    by (simp_all add: st2_def)
  show ?thesis
  proof (cases "times_n g = 1")
    case True
    with loop_body_go_on [OF f1 ret(1) go] ret(2)
    have "loop_body f1 w g st = Some (Exited code st2)"
      by (simp add: Let_def st2_def)
    with True st2 show ?thesis
      by auto
  next
    case False
    define g' where "g' = g\<lparr>times_n := times_n g - 1\<rparr>"
    from pause [OF False] have "pause_ends w g' (launches st)"
      by (simp add: pause_ends_def g'_def)
    from pause_continues [OF this, of st2]
    obtain f2 st' where f2: "pause f2 w g' (launches st) st2 = Some (Continue g' st')"
      and st': "launches st' = launches st2" "written st' = written st2"
      by blast
    have l: "launch (max f1 f2) w g (launches st) = Some (Reaped ret)"
      using f1 by (rule launch_mono) simp
    have p: "pause (max f1 f2) w g' (launches st) st2 = Some (Continue g' st')"
      using f2 by (rule pause_mono) simp
    from loop_body_go_on [OF l ret(1) go] False count p
    have "loop_body (max f1 f2) w g st = Some (Continue g' st')"
      by (simp add: Let_def st2_def g'_def)
    with False st' st2 show ?thesis
      by (auto simp add: g'_def)
  qed
qed

lemma main_loop_counts:
  assumes "times_n g = int (Suc n)" and "\<not> exit_on_error g" and "\<not> exit_on_success g"
    and "\<forall>k\<le>n. child_exits w g (launches st + k) (code (launches st + k))"
    and "\<forall>k<n. pause_ends w g (launches st + k)"
  shows "\<exists>fuel st'. main_loop fuel w g st = Some (code (launches st + n), st')
           \<and> launches st' = launches st + Suc n \<and> written st' = written st"
  using assms
proof (induction n arbitrary: g st)
  case 0
  then have "child_exits w g (launches st) (code (launches st))"
    by simp
  from loop_body_counts [OF this "0.prems"(2,3)] "0.prems"(1)
  obtain fuel st' where "launches st' = Suc (launches st)" "written st' = written st"
    and "loop_body fuel w g st = Some (Exited (code (launches st)) st')"
    by auto
  then have "main_loop (Suc fuel) w g st = Some (code (launches st + 0), st')
      \<and> launches st' = launches st + Suc 0 \<and> written st' = written st"
    by simp
  then show ?case
    by blast
next
  case (Suc n)
  define g' where "g' = g\<lparr>times_n := times_n g - 1\<rparr>"
  have child: "child_exits w g (launches st) (code (launches st))"
    using Suc.prems(4) by (metis add.right_neutral le0)
  have pause: "pause_ends w g (launches st)"
    using Suc.prems(5) by (metis add.right_neutral zero_less_Suc)
  from loop_body_counts [OF child Suc.prems(2,3) _ pause] Suc.prems(1)
  obtain f1 st1 where st1: "launches st1 = Suc (launches st)" "written st1 = written st"
    and f1: "loop_body f1 w g st = Some (Continue g' st1)"
    by (auto simp add: g'_def)
  have "times_n g' = int (Suc n)"
    using Suc.prems(1) by (simp add: g'_def)
  moreover have "\<not> exit_on_error g'" "\<not> exit_on_success g'"
    using Suc.prems(2,3) by (simp_all add: g'_def)
  moreover have "\<forall>k\<le>n. child_exits w g' (launches st1 + k) (code (launches st1 + k))"
  proof (intro allI impI)
    fix k assume "k \<le> n"
    then have "Suc k \<le> Suc n"
      by simp
    with Suc.prems(4) have "child_exits w g (launches st + Suc k) (code (launches st + Suc k))"
      by blast
    then show "child_exits w g' (launches st1 + k) (code (launches st1 + k))"
      by (simp add: st1 child_exits_def g'_def)
  qed
  moreover have "\<forall>k<n. pause_ends w g' (launches st1 + k)"
  proof (intro allI impI)
    fix k assume "k < n"
    then have "Suc k < Suc n"
      by simp
    with Suc.prems(5) have "pause_ends w g (launches st + Suc k)"
      by blast
    then show "pause_ends w g' (launches st1 + k)"
      by (simp add: st1 pause_ends_def g'_def)
  qed
  ultimately obtain f2 st' where f2: "main_loop f2 w g' st1 = Some (code (launches st1 + n), st')"
    and st': "launches st' = launches st1 + Suc n" "written st' = written st1"
    using Suc.IH [of g' st1] by blast
  have "loop_body (max f1 f2) w g st = Some (Continue g' st1)"
    using f1 by (rule loop_body_mono) simp
  moreover have "main_loop (max f1 f2) w g' st1 = Some (code (launches st1 + n), st')"
    using f2 by (rule main_loop_mono) simp
  ultimately have "main_loop (Suc (max f1 f2)) w g st = Some (code (launches st1 + n), st')"
    by simp
  with st' st1 have "main_loop (Suc (max f1 f2)) w g st = Some (code (launches st + Suc n), st')
      \<and> launches st' = launches st + Suc (Suc n) \<and> written st' = written st"
    by simp
  then show ?case
    by blast
qed

lemma start_running:
  assumes "precise g \<longrightarrow> origin_ret w \<noteq> Clock_Failed"
  shows "\<exists>st. start w g out = Inr st \<and> launches st = 0"
proof (cases "precise g")
  case True
  with assms obtain now where "origin_ret w = Clock_Read now"
    by (cases "origin_ret w") auto
  with True show ?thesis
    by (simp add: start_def Let_def initial_state_def)
next
  case False
  then show ?thesis
    by (simp add: start_def Let_def initial_state_def)
qed

text \<open>
  The run for a stored count \<open>N \<ge> 1\<close>: exactly \<open>N\<close> launches, and the exit code of the
  last one.
\<close>

lemma run_count_exhausted:
  assumes "1 \<le> N" and "times_n g = int N"
    and "\<not> exit_on_error g" and "\<not> exit_on_success g"
    and "\<forall>k<N. child_exits w g k (code k)"
    and "\<forall>k. Suc k < N \<longrightarrow> pause_ends w g k"
    and "precise g \<longrightarrow> origin_ret w \<noteq> Clock_Failed"
  shows "\<exists>F st'. (\<forall>fuel\<ge>F. run fuel w g out = Some (code (N - 1), st')) \<and> launches st' = N"
proof -
  from assms(1) obtain n where N: "N = Suc n"
    by (cases N) auto
  from start_running [OF assms(7)]
  obtain st where st: "start w g out = Inr st" and zero: "launches st = 0"
    by blast
  have "times_n g = int (Suc n)"
    using assms(2) by (simp add: N)
  moreover have "\<forall>k\<le>n. child_exits w g (launches st + k) (code (launches st + k))"
    using assms(5) by (simp add: N zero less_Suc_eq_le)
  moreover have "\<forall>k<n. pause_ends w g (launches st + k)"
    using assms(6) by (simp add: N zero)
  ultimately obtain F st' where "main_loop F w g st = Some (code (launches st + n), st')"
    and count: "launches st' = launches st + Suc n"
    using main_loop_counts [OF _ assms(3,4), of n w st code] by blast
  then have "run F w g out = Some (code (N - 1), st')"
    by (simp add: run_def st N zero)
  then have "\<forall>fuel\<ge>F. run fuel w g out = Some (code (N - 1), st')"
    by (blast intro: run_mono)
  with count show ?thesis
    by (auto simp add: N zero)
qed

lemma run_count_exhausted_example:
  "(\<exists>F st'. (\<forall>fuel\<ge>F. run fuel
        \<lparr>system_ret = (\<lambda>k. status_word (NormalExit (int k + 7))),
          wait_ret = (\<lambda>k j. Wait_Failed EINTR), origin_ret = Clock_Failed,
          now_ret = (\<lambda>k. Clock_Read \<lparr>tv_sec = 100 + int k, tv_nsec = 800000000\<rparr>),
          nanosleep_ret = (\<lambda>k j. if j = 0 then EINTR else 0)\<rparr>
        (initial_globals\<lparr>times_n := 3, interval_ts := \<lparr>tv_sec = 1, tv_nsec = 500000000\<rparr>\<rparr>) []
        = Some (9, st')) \<and> launches st' = 3)
   \<and> run 4
        \<lparr>system_ret = (\<lambda>k. status_word (NormalExit (int k + 7))),
          wait_ret = (\<lambda>k j. Wait_Failed EINTR), origin_ret = Clock_Failed,
          now_ret = (\<lambda>k. Clock_Read \<lparr>tv_sec = 100 + int k, tv_nsec = 800000000\<rparr>),
          nanosleep_ret = (\<lambda>k j. if j = 0 then EINTR else 0)\<rparr>
        (initial_globals\<lparr>times_n := 3, interval_ts := \<lparr>tv_sec = 1, tv_nsec = 500000000\<rparr>\<rparr>) []
      = Some (9, \<lparr>next_exec = \<lparr>tv_sec = 103, tv_nsec = 300000000\<rparr>, launches = 3,
                   clock_reads = 2,
                   sleeps = [\<lparr>tv_sec = 102, tv_nsec = 300000000\<rparr>,
                             \<lparr>tv_sec = 103, tv_nsec = 300000000\<rparr>],
                   written = []\<rparr>)"
proof
  let ?w = "\<lparr>system_ret = (\<lambda>k. status_word (NormalExit (int k + 7))),
          wait_ret = (\<lambda>k j. Wait_Failed EINTR), origin_ret = Clock_Failed,
          now_ret = (\<lambda>k. Clock_Read \<lparr>tv_sec = 100 + int k, tv_nsec = 800000000\<rparr>),
          nanosleep_ret = (\<lambda>k j. if j = 0 then EINTR else 0)\<rparr>"
  let ?g = "initial_globals\<lparr>times_n := 3, interval_ts := \<lparr>tv_sec = 1, tv_nsec = 500000000\<rparr>\<rparr>"
  have count: "(1::nat) \<le> 3" "times_n ?g = int 3"
    and flags: "\<not> exit_on_error ?g" "\<not> exit_on_success ?g"
    and clock: "precise ?g \<longrightarrow> origin_ret ?w \<noteq> Clock_Failed"
    by (simp_all add: initial_globals_def)
  have children: "\<forall>k<3. child_exits ?w ?g k (int k + 7)"
    by (simp add: child_exits_def initial_globals_def)
  have "\<exists>j. nanosleep_ret ?w k j = 0" for k
    by (rule exI [of _ 1]) simp
  then have pauses: "\<forall>k. Suc k < 3 \<longrightarrow> pause_ends ?w ?g k"
    by (simp add: pause_ends_def)
  from run_count_exhausted [OF count flags children pauses clock, of "[]"]
  show "\<exists>F st'. (\<forall>fuel\<ge>F. run fuel ?w ?g [] = Some (9, st')) \<and> launches st' = 3"
    by simp
  show "run 4 ?w ?g []
      = Some (9, \<lparr>next_exec = \<lparr>tv_sec = 103, tv_nsec = 300000000\<rparr>, launches = 3,
                   clock_reads = 2,
                   sleeps = [\<lparr>tv_sec = 102, tv_nsec = 300000000\<rparr>,
                             \<lparr>tv_sec = 103, tv_nsec = 300000000\<rparr>],
                   written = []\<rparr>)"
    by code_simp
qed

section \<open>A negative repeat count\<close>

lemma evaluate_times [simp]: "evaluate (g\<lparr>times_n := n\<rparr>) ret = evaluate g ret"
  by (simp add: evaluate_def)

lemma launch_times [simp]: "launch fuel w (g\<lparr>times_n := n\<rparr>) k = launch fuel w g k"
  by (simp add: launch_def)

lemma pause_result:
  "pause fuel w g k st = Some r \<Longrightarrow> (\<exists>st'. r = Continue g st') \<or> (\<exists>st'. r = Exited 1 st')"
  by (auto simp add: pause_def split: if_splits clock_result.splits option.splits)

lemma pause_times:
  "pause fuel w (g\<lparr>times_n := 0\<rparr>) k st = map_option uncounted (pause fuel w g k st)"
  by (simp add: pause_def uncounted_def split: clock_result.splits option.splits)

lemma loop_body_negative:
  assumes "times_n g \<le> 0"
  shows "loop_body fuel w (g\<lparr>times_n := 0\<rparr>) st = map_option uncounted (loop_body fuel w g st)"
proof (cases "launch fuel w g (launches st)")
  case None
  then show ?thesis
    by (simp add: loop_body_def Let_def)
next
  case (Some res)
  show ?thesis
  proof (cases res)
    case (Wait_Failed errno)
    with Some show ?thesis
      by (simp add: loop_body_def Let_def uncounted_def)
  next
    case (Reaped ret)
    with Some assms show ?thesis
      by (cases "evaluate g ret")
         (simp_all add: loop_body_def Let_def uncounted_def pause_times)
  qed
qed

lemma loop_body_keeps_count:
  assumes "times_n g \<le> 0" and "loop_body fuel w g st = Some (Continue g' st')"
  shows "g' = g"
proof -
  from assms obtain k s where "pause fuel w g k s = Some (Continue g' st')"
    by (auto simp add: loop_body_def Let_def
          split: option.splits wait_result.splits if_splits verdict.splits)
  from pause_result [OF this] show ?thesis
    by simp
qed

lemma main_loop_negative:
  "times_n g \<le> 0 \<Longrightarrow> main_loop fuel w (g\<lparr>times_n := 0\<rparr>) st = main_loop fuel w g st"
proof (induction fuel arbitrary: st)
  case 0
  show ?case by simp
next
  case (Suc fuel)
  note body = loop_body_negative [OF Suc.prems, of fuel w st]
  show ?case
  proof (cases "loop_body fuel w g st")
    case None
    with body show ?thesis
      by simp
  next
    case (Some r)
    show ?thesis
    proof (cases r)
      case (Continue g' st')
      with Some Suc.prems have "g' = g"
        by (simp add: loop_body_keeps_count)
      with Continue Some body Suc.IH [OF Suc.prems, of st'] show ?thesis
        by (simp add: uncounted_def)
    next
      case (Exited code st')
      with Some body show ?thesis
        by (simp add: uncounted_def)
    qed
  qed
qed

lemma rounds_keep_count:
  "times_n g \<le> 0 \<Longrightarrow> rounds fuel n w g st = Some (Continue g' st') \<Longrightarrow> g' = g"
proof (induction n arbitrary: st)
  case 0
  then show ?case by simp
next
  case (Suc n)
  from Suc.prems(2) obtain g1 st1 where body: "loop_body fuel w g st = Some (Continue g1 st1)"
    and rest: "rounds fuel n w g1 st1 = Some (Continue g' st')"
    by (auto split: option.splits step.splits)
  from loop_body_keeps_count [OF Suc.prems(1) body] have "g1 = g" .
  with rest Suc.IH [OF Suc.prems(1)] show ?case
    by simp
qed

lemma start_times: "start w (g\<lparr>times_n := n\<rparr>) out = start w g out"
  by (simp add: start_def)

text \<open>
  The loop for a stored count below 0: it runs as with the count 0, never changes the count,
  and skips the repeat-count exit.
\<close>

lemma negative_count_runs:
  assumes "times_n g < 0"
  shows "run fuel w g out = run fuel w (g\<lparr>times_n := 0\<rparr>) out
       \<and> (\<forall>n g' st'. rounds fuel n w g st = Some (Continue g' st') \<longrightarrow> times_n g' = times_n g)
       \<and> (\<forall>ret. launch fuel w g (launches st) = Some (Reaped ret) \<and> 0 \<le> ret
                  \<and> evaluate g ret = Go_on \<longrightarrow>
             loop_body fuel w g st =
               pause fuel w g (launches st)
                 ((if precise g
                   then st\<lparr>next_exec := timespec_add (next_exec st) (interval_ts g)\<rparr>
                   else st)\<lparr>launches := Suc (launches st)\<rparr>))"
proof (intro conjI allI impI)
  from assms have le: "times_n g \<le> 0"
    by simp
  show "run fuel w g out = run fuel w (g\<lparr>times_n := 0\<rparr>) out"
    by (simp add: run_def start_times main_loop_negative [OF le] split: sum.splits)
  show "times_n g' = times_n g" if "rounds fuel n w g st = Some (Continue g' st')" for n g' st'
    using rounds_keep_count [OF le that] by simp
  show "loop_body fuel w g st =
          pause fuel w g (launches st)
            ((if precise g
              then st\<lparr>next_exec := timespec_add (next_exec st) (interval_ts g)\<rparr>
              else st)\<lparr>launches := Suc (launches st)\<rparr>)"
    if "launch fuel w g (launches st) = Some (Reaped ret) \<and> 0 \<le> ret \<and> evaluate g ret = Go_on"
    for ret
  proof -
    from that have "launch fuel w g (launches st) = Some (Reaped ret)" "0 \<le> ret"
      "evaluate g ret = Go_on"
      by simp_all
    from loop_body_go_on [OF this] assms show ?thesis
      by (simp add: Let_def)
  qed
qed

section \<open>The schedule in precise mode\<close>

lemma deadline_total:
  assumes "normalized origin" and "normalized interval"
    and "tv_sec origin + int k * (tv_sec interval + 1) \<le> TIME_T_MAX"
  shows "normalized (deadline origin interval k)
       \<and> total_ns (deadline origin interval k) = total_ns origin + int k * total_ns interval
       \<and> tv_sec (deadline origin interval k) \<le> tv_sec origin + int k * (tv_sec interval + 1)"
  using assms(3)
proof (induction k)
  case 0
  from assms(1) show ?case by simp
next
  case (Suc k)
  define c where "c = tv_sec interval + 1"
  have c: "0 < c"
    using assms(2) by (simp add: c_def normalized_def)
  have step: "int (Suc k) * c = int k * c + c"
    by (simp add: algebra_simps)
  from Suc.prems have top: "tv_sec origin + int k * c + c \<le> TIME_T_MAX"
    by (simp only: c_def [symmetric] step add.assoc)
  with c have "tv_sec origin + int k * (tv_sec interval + 1) \<le> TIME_T_MAX"
    by (simp add: c_def)
  from Suc.IH [OF this]
  have n: "normalized (deadline origin interval k)"
    and t: "total_ns (deadline origin interval k) = total_ns origin + int k * total_ns interval"
    and le: "tv_sec (deadline origin interval k) \<le> tv_sec origin + int k * c"
    by (simp_all add: c_def)
  from le top have fits: "tv_sec (deadline origin interval k) + tv_sec interval < TIME_T_MAX"
    by (simp add: c_def)
  have "normalized (deadline origin interval (Suc k))"
    using n assms(2) fits by (simp add: timespec_add_normalized)
  moreover have "total_ns (deadline origin interval (Suc k))
      = total_ns origin + int (Suc k) * total_ns interval"
    using n assms(2) fits by (simp add: total_ns_timespec_add t algebra_simps)
  moreover have "tv_sec (deadline origin interval (Suc k))
      \<le> tv_sec origin + int (Suc k) * (tv_sec interval + 1)"
  proof -
    have "tv_sec (timespec_add (deadline origin interval k) interval)
        \<le> tv_sec origin + (int k * c + c)"
      using tv_sec_timespec_add [OF n assms(2) fits] le c_def by linarith
    then show ?thesis
      by (simp only: deadline.simps c_def [symmetric] step)
  qed
  ultimately show ?case
    by (intro conjI)
qed

lemma pause_precise:
  assumes "precise g" and "tv_sec (interval_ts g) \<noteq> 0 \<or> tv_nsec (interval_ts g) \<noteq> 0"
    and "pause fuel w g k st = Some (Continue g' st')"
  shows "g' = g \<and> st' = st\<lparr>sleeps := sleeps st @ [next_exec st]\<rparr>"
  using assms by (auto simp add: pause_def split: option.splits)

lemma loop_body_precise:
  assumes "precise g" and "tv_sec (interval_ts g) \<noteq> 0 \<or> tv_nsec (interval_ts g) \<noteq> 0"
    and "loop_body fuel w g st = Some (Continue g' st')"
  shows "next_exec st' = timespec_add (next_exec st) (interval_ts g)
       \<and> sleeps st' = sleeps st @ [next_exec st']
       \<and> clock_reads st' = clock_reads st \<and> launches st' = Suc (launches st)
       \<and> written st' = written st
       \<and> precise g' \<and> interval_ts g' = interval_ts g"
proof -
  define st2 where "st2 = st\<lparr>next_exec := timespec_add (next_exec st) (interval_ts g),
                               launches := Suc (launches st)\<rparr>"
  have "\<exists>n. pause fuel w (g\<lparr>times_n := n\<rparr>) (launches st) st2 = Some (Continue g' st')"
  proof (cases "0 < times_n g")
    case True
    with assms(1,3) have "pause fuel w (g\<lparr>times_n := times_n g - 1\<rparr>) (launches st) st2
        = Some (Continue g' st')"
      by (auto simp add: loop_body_def Let_def st2_def
            split: option.splits wait_result.splits if_splits verdict.splits)
    then show ?thesis ..
  next
    case False
    with assms(1,3) have "pause fuel w (g\<lparr>times_n := times_n g\<rparr>) (launches st) st2
        = Some (Continue g' st')"
      by (auto simp add: loop_body_def Let_def st2_def
            split: option.splits wait_result.splits if_splits verdict.splits)
    then show ?thesis ..
  qed
  then obtain n where "pause fuel w (g\<lparr>times_n := n\<rparr>) (launches st) st2 = Some (Continue g' st')"
    by blast
  moreover define g1 where "g1 = g\<lparr>times_n := n\<rparr>"
  ultimately have p: "pause fuel w g1 (launches st) st2 = Some (Continue g' st')"
    by simp
  have g1: "precise g1" "interval_ts g1 = interval_ts g"
    using assms(1) by (simp_all add: g1_def)
  from assms(2) g1 have "tv_sec (interval_ts g1) \<noteq> 0 \<or> tv_nsec (interval_ts g1) \<noteq> 0"
    by simp
  from pause_precise [OF g1(1) this p] g1 show ?thesis
    by (simp add: st2_def)
qed

lemma rounds_precise:
  assumes "precise g" and "tv_sec (interval_ts g) \<noteq> 0 \<or> tv_nsec (interval_ts g) \<noteq> 0"
    and "rounds fuel n w g st = Some (Continue g' st')"
    and "next_exec st = deadline origin (interval_ts g) m"
    and "sleeps st = map (deadline origin (interval_ts g)) [1..<Suc m]"
  shows "next_exec st' = deadline origin (interval_ts g) (m + n)
       \<and> sleeps st' = map (deadline origin (interval_ts g)) [1..<Suc (m + n)]
       \<and> clock_reads st' = clock_reads st \<and> launches st' = launches st + n
       \<and> written st' = written st"
  using assms
proof (induction n arbitrary: g st m)
  case 0
  then show ?case by simp
next
  case (Suc n)
  from Suc.prems(3) obtain g1 st1 where body: "loop_body fuel w g st = Some (Continue g1 st1)"
    and rest: "rounds fuel n w g1 st1 = Some (Continue g' st')"
    by (auto split: option.splits step.splits)
  from loop_body_precise [OF Suc.prems(1,2) body]
  have st1: "next_exec st1 = timespec_add (next_exec st) (interval_ts g)"
    "sleeps st1 = sleeps st @ [next_exec st1]"
    "clock_reads st1 = clock_reads st" "launches st1 = Suc (launches st)"
    "written st1 = written st"
    and g1: "precise g1" "interval_ts g1 = interval_ts g"
    by simp_all
  have next1: "next_exec st1 = deadline origin (interval_ts g1) (Suc m)"
    by (simp add: st1 g1 Suc.prems(4))
  have sleeps1: "sleeps st1 = map (deadline origin (interval_ts g1)) [1..<Suc (Suc m)]"
    using next1 by (simp add: st1(2) g1 Suc.prems(5))
  from Suc.prems(2) g1 have "tv_sec (interval_ts g1) \<noteq> 0 \<or> tv_nsec (interval_ts g1) \<noteq> 0"
    by simp
  from Suc.IH [OF g1(1) this rest next1 sleeps1] show ?case
    by (simp add: g1 st1)
qed

text \<open>
  Claim C2. In precise mode the clock is read once, before the first run. However long the
  runs take and whatever the environment answers, after \<open>n\<close> iterations of the loop the
  process has slept until exactly \<open>n\<close> deadlines, each the previous one advanced by the
  interval with \<^verbatim>\<open>timespec_add\<close>, the first being the origin advanced once; the clock
  has not been read again. For an interval and an origin in normal form, the \<open>k\<close>-th
  deadline is \<open>origin + k * interval\<close>, counted in nanoseconds, for every \<open>k\<close> up to
  which the seconds stay in the range of \<^verbatim>\<open>time_t\<close>.
\<close>

theorem precise_deadlines:
  assumes "precise g" and "normalized (interval_ts g)" and "0 < total_ns (interval_ts g)"
    and "origin_ret w = Clock_Read origin" and "normalized origin"
    and "start w g out = Inr st"
    and "rounds fuel n w g st = Some (Continue g' st')"
  shows "sleeps st' = map (deadline origin (interval_ts g)) [1..<Suc n]
       \<and> next_exec st' = deadline origin (interval_ts g) n
       \<and> clock_reads st' = 1 \<and> launches st' = n
       \<and> (\<forall>k. deadline origin (interval_ts g) (Suc k)
                 = timespec_add (deadline origin (interval_ts g) k) (interval_ts g)
              \<and> (tv_sec origin + int k * (tv_sec (interval_ts g) + 1) \<le> TIME_T_MAX \<longrightarrow>
                   normalized (deadline origin (interval_ts g) k)
                   \<and> total_ns (deadline origin (interval_ts g) k)
                       = total_ns origin + int k * total_ns (interval_ts g)))"
proof -
  from assms(3) have nonzero: "tv_sec (interval_ts g) \<noteq> 0 \<or> tv_nsec (interval_ts g) \<noteq> 0"
    by (auto simp add: total_ns_def)
  from assms(1,4,6) have st: "next_exec st = deadline origin (interval_ts g) 0"
    "sleeps st = map (deadline origin (interval_ts g)) [1..<Suc 0]"
    "clock_reads st = 1" "launches st = 0"
    by (auto simp add: start_def Let_def initial_state_def)
  from rounds_precise [OF assms(1) nonzero assms(7) st(1,2)] st(3,4)
  have "sleeps st' = map (deadline origin (interval_ts g)) [1..<Suc n]
       \<and> next_exec st' = deadline origin (interval_ts g) n
       \<and> clock_reads st' = 1 \<and> launches st' = n"
    by simp
  with deadline_total [OF assms(5,2)] show ?thesis
    by simp
qed

theorem precise_deadlines_witness:
  "rounds 1 3 \<lparr>system_ret = (\<lambda>k. status_word (NormalExit 0)),
                wait_ret = (\<lambda>k j. Wait_Failed EINTR),
                origin_ret = Clock_Read \<lparr>tv_sec = 5, tv_nsec = 900000000\<rparr>,
                now_ret = (\<lambda>k. Clock_Failed), nanosleep_ret = (\<lambda>k j. 0)\<rparr>
       (initial_globals\<lparr>precise := True, interval_ts := \<lparr>tv_sec = 0, tv_nsec = 600000000\<rparr>\<rparr>)
       ((initial_state [])\<lparr>next_exec := \<lparr>tv_sec = 5, tv_nsec = 900000000\<rparr>, clock_reads := 1\<rparr>)
     = Some (Continue
         (initial_globals\<lparr>precise := True, interval_ts := \<lparr>tv_sec = 0, tv_nsec = 600000000\<rparr>\<rparr>)
         \<lparr>next_exec = \<lparr>tv_sec = 7, tv_nsec = 700000000\<rparr>, launches = 3, clock_reads = 1,
           sleeps = [\<lparr>tv_sec = 6, tv_nsec = 500000000\<rparr>, \<lparr>tv_sec = 7, tv_nsec = 100000000\<rparr>,
                     \<lparr>tv_sec = 7, tv_nsec = 700000000\<rparr>],
           written = []\<rparr>)
   \<and> [\<lparr>tv_sec = 6, tv_nsec = 500000000\<rparr>, \<lparr>tv_sec = 7, tv_nsec = 100000000\<rparr>,
       \<lparr>tv_sec = 7, tv_nsec = 700000000\<rparr>]
     = map (deadline \<lparr>tv_sec = 5, tv_nsec = 900000000\<rparr> \<lparr>tv_sec = 0, tv_nsec = 600000000\<rparr>)
         [1..<Suc 3]
   \<and> total_ns (deadline \<lparr>tv_sec = 5, tv_nsec = 900000000\<rparr> \<lparr>tv_sec = 0, tv_nsec = 600000000\<rparr> 3)
     = total_ns \<lparr>tv_sec = 5, tv_nsec = 900000000\<rparr>
       + int 3 * total_ns \<lparr>tv_sec = 0, tv_nsec = 600000000\<rparr>"
proof -
  let ?origin = "\<lparr>tv_sec = 5, tv_nsec = 900000000\<rparr>"
  let ?w = "\<lparr>system_ret = (\<lambda>k. status_word (NormalExit 0)),
                wait_ret = (\<lambda>k j. Wait_Failed EINTR),
                origin_ret = Clock_Read ?origin,
                now_ret = (\<lambda>k. Clock_Failed), nanosleep_ret = (\<lambda>k j. 0)\<rparr>"
  let ?g = "initial_globals\<lparr>precise := True, interval_ts := \<lparr>tv_sec = 0, tv_nsec = 600000000\<rparr>\<rparr>"
  let ?st = "(initial_state [])\<lparr>next_exec := ?origin, clock_reads := 1\<rparr>"
  let ?st' = "\<lparr>next_exec = \<lparr>tv_sec = 7, tv_nsec = 700000000\<rparr>, launches = 3, clock_reads = 1,
           sleeps = [\<lparr>tv_sec = 6, tv_nsec = 500000000\<rparr>, \<lparr>tv_sec = 7, tv_nsec = 100000000\<rparr>,
                     \<lparr>tv_sec = 7, tv_nsec = 700000000\<rparr>],
           written = []\<rparr>"
  have p: "precise ?g" and i: "normalized (interval_ts ?g)" and pos: "0 < total_ns (interval_ts ?g)"
    and o: "origin_ret ?w = Clock_Read ?origin" and n: "normalized ?origin"
    by (simp_all add: normalized_def NS_IN_SEC_def total_ns_def)
  have s: "start ?w ?g [] = Inr ?st"
    by (simp add: start_def Let_def initial_globals_def)
  have r: "rounds 1 3 ?w ?g ?st = Some (Continue ?g ?st')"
    by code_simp
  have fits: "tv_sec ?origin + int 3 * (tv_sec (interval_ts ?g) + 1) \<le> TIME_T_MAX"
    by (simp add: TIME_T_MAX_def)
  from precise_deadlines [OF p i pos o n s r] fits
  have "sleeps ?st' = map (deadline ?origin (interval_ts ?g)) [1..<Suc 3]"
    and "total_ns (deadline ?origin (interval_ts ?g) 3)
          = total_ns ?origin + int 3 * total_ns (interval_ts ?g)"
    by blast+
  with r show ?thesis
    by simp
qed

section \<open>Failures of the wait and of the sleep\<close>

lemma wait_loop_fails:
  assumes "\<forall>i<j. rets (m + i) = Wait_Failed EINTR" and "rets (m + j) = Wait_Failed errno"
    and "errno \<noteq> EINTR"
  shows "wait_loop (Suc j) rets m = Some (Wait_Failed errno)"
  using assms
proof (induction j arbitrary: m)
  case 0
  then show ?case by simp
next
  case (Suc j)
  from Suc.prems(1) have first: "rets m = Wait_Failed EINTR"
    by (metis add.right_neutral zero_less_Suc)
  have "\<forall>i<j. rets (Suc m + i) = Wait_Failed EINTR"
    using Suc.prems(1) by (metis Suc_less_eq add_Suc_shift)
  moreover have "rets (Suc m + j) = Wait_Failed errno"
    using Suc.prems(2) by simp
  ultimately have "wait_loop (Suc j) rets (Suc m) = Some (Wait_Failed errno)"
    using Suc.prems(3) by (rule Suc.IH)
  with first show ?case
    by simp
qed

text \<open>
  The wait on the child does what claim C9 says: interruptions are retried, and the first
  other failure ends the process with status 1 and a diagnostic, with no further launch.
\<close>

lemma wait_failure_is_fatal:
  assumes "use_exec g" and "\<forall>i<j. wait_ret w (launches st) i = Wait_Failed EINTR"
    and "wait_ret w (launches st) j = Wait_Failed errno" and "errno \<noteq> EINTR" and "j < fuel"
  shows "\<exists>st'. main_loop (Suc fuel) w g st = Some (1, st')
           \<and> written st' = written st @ [(Stderr, Fatal_waiting)]
           \<and> launches st' = Suc (launches st)"
proof -
  have "wait_loop (Suc j) (wait_ret w (launches st)) 0 = Some (Wait_Failed errno)"
    using assms(2,3,4) by (intro wait_loop_fails) simp_all
  moreover have "Suc j \<le> fuel"
    using assms(5) by simp
  ultimately have "wait_loop fuel (wait_ret w (launches st)) 0 = Some (Wait_Failed errno)"
    by (rule wait_loop_mono)
  with assms(1) show ?thesis
    by (simp add: loop_body_def launch_def Let_def say_def)
qed

lemma sleep_loop_never_ends:
  "\<forall>j. rets j \<noteq> 0 \<Longrightarrow> sleep_loop fuel rets j = None"
  by (induction fuel arbitrary: j) simp_all

lemma pause_never_ends:
  assumes "tv_sec (interval_ts g) \<noteq> 0 \<or> tv_nsec (interval_ts g) \<noteq> 0"
    and "precise g \<or> now_ret w k \<noteq> Clock_Failed"
    and "\<forall>j. nanosleep_ret w k j \<noteq> 0"
  shows "pause fuel w g k st = None"
  using assms sleep_loop_never_ends [OF assms(3), of fuel 0]
  by (auto simp add: pause_def split: clock_result.splits)

text \<open>
  Claim C9. Interruptions of the wait and of the sleep are retried, and any other failure
  should end the process at once with a diagnostic and status 1. The wait does so; the sleep
  of lines 281-283 is repeated after every non-zero return. Where
  \<^verbatim>\<open>clock_nanosleep\<close> keeps returning \<^verbatim>\<open>EINVAL\<close> (22), the process never exits,
  whatever the bound; where it returns \<^verbatim>\<open>EINVAL\<close> once and 0 at the next call, the
  process goes on to the second launch and ends with the status of the command, having
  written nothing.
\<close>

theorem sleep_failure_is_retried:
  "(\<forall>fuel. run fuel
        \<lparr>system_ret = (\<lambda>k. status_word (NormalExit 0)), wait_ret = (\<lambda>k j. Wait_Failed EINTR),
          origin_ret = Clock_Failed, now_ret = (\<lambda>k. Clock_Read \<lparr>tv_sec = 100, tv_nsec = 0\<rparr>),
          nanosleep_ret = (\<lambda>k j. 22)\<rparr>
        (initial_globals\<lparr>times_n := 2, interval_ts := \<lparr>tv_sec = 1, tv_nsec = 0\<rparr>\<rparr>) [] = None)
   \<and> run 3
        \<lparr>system_ret = (\<lambda>k. status_word (NormalExit 0)), wait_ret = (\<lambda>k j. Wait_Failed EINTR),
          origin_ret = Clock_Failed, now_ret = (\<lambda>k. Clock_Read \<lparr>tv_sec = 100, tv_nsec = 0\<rparr>),
          nanosleep_ret = (\<lambda>k j. if j = 0 then 22 else 0)\<rparr>
        (initial_globals\<lparr>times_n := 2, interval_ts := \<lparr>tv_sec = 1, tv_nsec = 0\<rparr>\<rparr>) []
      = Some (0, \<lparr>next_exec = \<lparr>tv_sec = 101, tv_nsec = 0\<rparr>, launches = 2, clock_reads = 1,
                   sleeps = [\<lparr>tv_sec = 101, tv_nsec = 0\<rparr>], written = []\<rparr>)"
proof (intro conjI allI)
  let ?w = "\<lparr>system_ret = (\<lambda>k. status_word (NormalExit 0)), wait_ret = (\<lambda>k j. Wait_Failed EINTR),
          origin_ret = Clock_Failed, now_ret = (\<lambda>k. Clock_Read \<lparr>tv_sec = 100, tv_nsec = 0\<rparr>),
          nanosleep_ret = (\<lambda>k j. 22)\<rparr>"
  let ?g = "initial_globals\<lparr>times_n := 2, interval_ts := \<lparr>tv_sec = 1, tv_nsec = 0\<rparr>\<rparr>"
  fix fuel
  have st: "start ?w ?g [] = Inr (initial_state [])"
    by (simp add: start_def initial_globals_def)
  have body: "loop_body f ?w ?g (initial_state []) = None" for f
  proof -
    have l: "launch f ?w ?g (launches (initial_state [])) = Some (Reaped (status_word (NormalExit 0)))"
      by (simp add: launch_def initial_globals_def)
    have e: "evaluate ?g (status_word (NormalExit 0)) = Go_on"
      by (rule evaluate_normal_exit) (simp_all add: initial_globals_def)
    have z: "0 \<le> status_word (NormalExit 0)"
      by (rule exited_status) simp_all
    have "pause f ?w (?g\<lparr>times_n := 1\<rparr>) k s = None" for k s
      by (rule pause_never_ends) simp_all
    with loop_body_go_on [OF l z e] show ?thesis
      by (simp add: Let_def)
  qed
  have "main_loop fuel ?w ?g (initial_state []) = None"
    by (cases fuel) (simp_all add: body)
  then show "run fuel ?w ?g [] = None"
    by (simp add: run_def st)
next
  show "run 3
        \<lparr>system_ret = (\<lambda>k. status_word (NormalExit 0)), wait_ret = (\<lambda>k j. Wait_Failed EINTR),
          origin_ret = Clock_Failed, now_ret = (\<lambda>k. Clock_Read \<lparr>tv_sec = 100, tv_nsec = 0\<rparr>),
          nanosleep_ret = (\<lambda>k j. if j = 0 then 22 else 0)\<rparr>
        (initial_globals\<lparr>times_n := 2, interval_ts := \<lparr>tv_sec = 1, tv_nsec = 0\<rparr>\<rparr>) []
      = Some (0, \<lparr>next_exec = \<lparr>tv_sec = 101, tv_nsec = 0\<rparr>, launches = 2, clock_reads = 1,
                   sleeps = [\<lparr>tv_sec = 101, tv_nsec = 0\<rparr>], written = []\<rparr>)"
    by code_simp
qed

section \<open>The command for the shell\<close>

lemma space_joined_Cons:
  "space_joined (a # rest) = a @ concat (map (\<lambda>b. CHR '' '' # b) rest)"
  by (induction rest arbitrary: a) simp_all

lemma strcpy_blank:
  assumes "length pre = p" and "length s < k"
  shows "strcpy (pre @ replicate k NUL) p s
           = Some ((pre @ s) @ replicate (k - length s) NUL)"
proof -
  from assms(2) obtain r where k: "k = Suc (length s + r)"
    by (metis less_iff_Suc_add add_Suc_right)
  from assms(1) show ?thesis
    by (simp add: strcpy_def k)
qed

lemma strcpy_start:
  assumes "length s < k"
  shows "strcpy (replicate k NUL) 0 s = Some (s @ replicate (k - length s) NUL)"
  using strcpy_blank [of "[]" 0 s k] assms by simp

lemma join_loop_writes:
  assumes "length pre = p" and "sum_list (map (\<lambda>a. Suc (length a)) toks) < k"
  shows "join_loop (pre @ replicate k NUL) p toks
           = Some ((pre @ concat (map (\<lambda>b. CHR '' '' # b) toks))
                   @ replicate (k - sum_list (map (\<lambda>a. Suc (length a)) toks)) NUL)"
  using assms
proof (induction toks arbitrary: pre p k)
  case Nil
  then show ?case by simp
next
  case (Cons a toks)
  from Cons.prems(2) obtain k' where k: "k = Suc k'" and k': "length a < k'"
    and rest: "sum_list (map (\<lambda>a. Suc (length a)) toks) < k' - length a"
    by (cases k) auto
  have blank: "(pre @ replicate k NUL)[p := CHR '' ''] = (pre @ '' '') @ replicate k' NUL"
    using Cons.prems(1) by (simp add: k list_update_append)
  have len: "length (pre @ '' '') = Suc p"
    using Cons.prems(1) by simp
  have copied: "strcpy ((pre @ '' '') @ replicate k' NUL) (Suc p) a
      = Some (((pre @ '' '') @ a) @ replicate (k' - length a) NUL)"
    using len k' by (rule strcpy_blank)
  have len': "length ((pre @ '' '') @ a) = Suc p + length a"
    using Cons.prems(1) by simp
  have inside: "p < length (pre @ replicate k NUL)"
    using Cons.prems(1) by (simp add: k)
  have "join_loop (pre @ replicate k NUL) p (a # toks)
      = (case strcpy ((pre @ replicate k NUL)[p := CHR '' '']) (Suc p) a of
           None \<Rightarrow> None
         | Some buf' \<Rightarrow> join_loop buf' (Suc p + length a) toks)"
    using inside by (simp only: join_loop.simps if_True)
  also have "\<dots> = join_loop (((pre @ '' '') @ a) @ replicate (k' - length a) NUL)
                      (Suc p + length a) toks"
    by (simp only: blank copied option.case)
  also have "\<dots> = Some ((((pre @ '' '') @ a) @ concat (map (\<lambda>b. CHR '' '' # b) toks))
              @ replicate (k' - length a - sum_list (map (\<lambda>a. Suc (length a)) toks)) NUL)"
    using len' rest by (rule Cons.IH)
  also have "\<dots> = Some ((pre @ concat (map (\<lambda>b. CHR '' '' # b) (a # toks)))
              @ replicate (k - sum_list (map (\<lambda>a. Suc (length a)) (a # toks))) NUL)"
    by (simp add: k)
  finally show ?case .
qed

lemma takeWhile_written:
  assumes "NUL \<notin> set s"
  shows "takeWhile (\<lambda>c. c \<noteq> NUL) (s @ replicate (Suc n) NUL) = s"
  using assms by (induction s) auto

lemma join_command_joins:
  assumes "toks \<noteq> []" and "\<forall>a\<in>set toks. NUL \<notin> set a"
  shows "join_command toks = Some (space_joined toks)"
proof -
  from assms(1) obtain a rest where toks: "toks = a # rest"
    by (cases toks) auto
  define m where "m = sum_list (map (\<lambda>a. Suc (length a)) rest)"
  have total: "length toks - 1 + sum_list (map length toks) + 1 = Suc (length a + m)"
    by (simp add: toks m_def sum_list_Suc)
  have "strcpy (replicate (Suc (length a + m)) NUL) 0 a
      = Some (a @ replicate (Suc (length a + m) - length a) NUL)"
    by (rule strcpy_start) simp
  then have first: "strcpy (replicate (Suc (length a + m)) NUL) 0 a
      = Some (a @ replicate (Suc m) NUL)"
    by (simp del: replicate_Suc)
  have "join_loop (a @ replicate (Suc m) NUL) (length a) rest
      = Some ((a @ concat (map (\<lambda>b. CHR '' '' # b) rest)) @ replicate (Suc m - m) NUL)"
    unfolding m_def by (rule join_loop_writes) simp_all
  then have loop: "join_loop (a @ replicate (Suc m) NUL) (length a) rest
      = Some (space_joined toks @ replicate (Suc 0) NUL)"
    by (simp add: toks space_joined_Cons del: replicate_Suc)
  have "NUL \<notin> set (space_joined toks)"
    using assms(2) by (auto simp add: toks space_joined_Cons NUL_def)
  then have read: "takeWhile (\<lambda>c. c \<noteq> NUL) (space_joined toks @ replicate (Suc 0) NUL)
      = space_joined toks"
    by (rule takeWhile_written)
  have "join_command toks
      = (case strcpy (replicate (Suc (length a + m)) NUL) 0 a of
           None \<Rightarrow> None
         | Some buf1 \<Rightarrow>
             (case join_loop buf1 (length a) rest of
                None \<Rightarrow> None
              | Some buf2 \<Rightarrow> Some (takeWhile (\<lambda>c. c \<noteq> NUL) buf2)))"
    unfolding join_command_def Let_def total by (simp only: toks list.sel)
  also have "\<dots> = Some (space_joined toks)"
    by (simp only: first loop read option.case)
  finally show ?thesis .
qed

section \<open>The tokens left after the options\<close>

lemma short_option_suffix:
  "short_option c cs rest = Opt c' optarg args' nextchar' \<Longrightarrow> suffix args' rest"
  by (auto simp add: short_option_def suffix_ConsI
        split: option.splits has_arg.splits if_splits list.splits)

lemma long_option_suffix:
  "long_option text rest = Opt c' optarg args' nextchar' \<Longrightarrow> suffix args' rest"
  by (auto simp add: long_option_def Let_def suffix_ConsI
        split: option.splits has_arg.splits if_splits list.splits prod.splits)

lemma getopt_long_suffix:
  "getopt_long args nextchar = Opt c optarg args' nextchar' \<Longrightarrow> suffix args' args"
  by (cases "(args, nextchar)" rule: getopt_long.cases)
     (auto simp add: suffix_ConsI dest: short_option_suffix long_option_suffix split: if_splits)

lemma getopt_long_rest:
  "getopt_long args nextchar = No_more rest \<Longrightarrow> suffix rest args"
  by (cases "(args, nextchar)" rule: getopt_long.cases)
     (auto simp add: suffix_ConsI short_option_def long_option_def Let_def
        split: if_splits option.splits has_arg.splits list.splits prod.splits)

lemma parse_options_step:
  assumes "getopt_long args nextchar = Opt c optarg args' nextchar'"
    and "parse_options ops args nextchar g out = Options_done rest g' out'"
  shows "\<exists>g1 out1. parse_options ops args' nextchar' g1 out1 = Options_done rest g' out'"
  using assms(2)
  by (subst (asm) parse_options.simps)
     (auto simp add: assms(1) Let_def split: if_splits sum.splits)

lemma parse_options_suffix:
  "parse_options ops args nextchar g out = Options_done rest g' out' \<Longrightarrow> suffix rest args"
proof (induction "consumed args nextchar" arbitrary: args nextchar g out rule: less_induct)
  case less
  show ?case
  proof (cases "getopt_long args nextchar")
    case (No_more r)
    with less.prems have "rest = r"
      by (subst (asm) parse_options.simps) simp
    with No_more show ?thesis
      by (simp add: getopt_long_rest)
  next
    case (Opt c optarg args' nextchar')
    from parse_options_step [OF Opt less.prems]
    obtain g1 out1 where "parse_options ops args' nextchar' g1 out1 = Options_done rest g' out'"
      by blast
    with getopt_long_consumes [OF Opt] have "suffix rest args'"
      by (rule less.hyps)
    then show ?thesis
      using getopt_long_suffix [OF Opt] by (rule suffix_order.trans)
  qed
qed

lemma parse_arguments_command:
  assumes "parse_arguments ops argv = (False, rv, g, out)"
  shows "\<exists>rest. rest \<noteq> [] \<and> suffix rest (tl argv) \<and> cmd_arg_idx g = length argv - length rest
           \<and> (\<not> use_exec g \<longrightarrow> command g = join_command rest)"
proof (cases "parse_options ops (tl argv) [] initial_globals []")
  case (Exit_now return_val g0 out0)
  with assms show ?thesis
    by (simp add: parse_arguments_def)
next
  case (Options_done rest g0 out0)
  from parse_options_suffix [OF this] have "suffix rest (tl argv)" .
  with assms Options_done show ?thesis
    by (auto simp add: parse_arguments_def Let_def split: if_splits)
qed

text \<open>
  Claim C8. When the arguments are parsed without an exit and the direct-launch flag is not
  set, the command string is made of the elements of \<^verbatim>\<open>argv\<close> from
  \<^verbatim>\<open>cmd_arg_idx\<close> on (the tokens left when the option parsing stopped; there is at least
  one), in their order, with one space between neighbours and no other character added,
  removed or changed. The strings of \<^verbatim>\<open>argv\<close> are C strings: they hold no zero byte.
\<close>

theorem shell_command_is_space_joined:
  assumes "parse_arguments ops argv = (False, rv, g, out)" and "\<not> use_exec g"
    and "argv \<noteq> []" and "\<forall>a\<in>set argv. NUL \<notin> set a"
  shows "drop (cmd_arg_idx g) argv \<noteq> []
       \<and> command g = Some (space_joined (drop (cmd_arg_idx g) argv))"
proof -
  from parse_arguments_command [OF assms(1)] assms(2)
  obtain rest where rest: "rest \<noteq> []" "suffix rest (tl argv)"
    and idx: "cmd_arg_idx g = length argv - length rest"
    and cmd: "command g = join_command rest"
    by blast
  from rest(2) assms(3) have "suffix rest argv"
    by (cases argv) (simp_all add: suffix_ConsI)
  then obtain pre where argv: "argv = pre @ rest"
    by (auto simp add: suffix_def)
  then have tokens: "drop (cmd_arg_idx g) argv = rest"
    by (simp add: idx)
  from assms(4) have "\<forall>a\<in>set rest. NUL \<notin> set a"
    by (simp add: argv)
  with rest(1) have "join_command rest = Some (space_joined rest)"
    by (rule join_command_joins)
  with rest(1) tokens cmd show ?thesis
    by simp
qed

theorem shell_command_is_space_joined_witness:
  "parse_arguments no_float [''repeat'', ''-t'', ''2'', ''echo'', ''a  b'', ''$HOME;ls'']
     = (False, 0, initial_globals\<lparr>times_n := 2, cmd_arg_idx := 3,
                                  command := Some ''echo a  b $HOME;ls''\<rparr>, [])
   \<and> command (initial_globals\<lparr>times_n := 2, cmd_arg_idx := 3,
                                command := Some ''echo a  b $HOME;ls''\<rparr>)
     = Some (space_joined (drop 3 [''repeat'', ''-t'', ''2'', ''echo'', ''a  b'', ''$HOME;ls'']))"
proof -
  let ?argv = "[''repeat'', ''-t'', ''2'', ''echo'', ''a  b'', ''$HOME;ls'']"
  let ?g = "initial_globals\<lparr>times_n := 2, cmd_arg_idx := 3,
                            command := Some ''echo a  b $HOME;ls''\<rparr>"
  have "parse_arguments ops ?argv = (False, 0, ?g, [])" for ops :: "unit float_ops"
    by code_simp
  then have p: "parse_arguments no_float ?argv = (False, 0, ?g, [])" .
  have x: "\<not> use_exec ?g" and n: "?argv \<noteq> []" and z: "\<forall>a\<in>set ?argv. NUL \<notin> set a"
    by (simp_all add: initial_globals_def NUL_def)
  from shell_command_is_space_joined [OF p x n z] p show ?thesis
    by simp
qed

section \<open>Errors in the command line\<close>

lemma short_option_t:
  "short_option (CHR ''t'') [] (optarg # rest) = Opt (CHR ''t'') optarg rest []"
  by (simp add: short_option_def optstring_def)

lemma parse_options_t:
  "parse_options ops (''-t'' # optarg # rest) [] g out =
     (if snd (strtol optarg) = 0
      then Exit_now 1 (g\<lparr>times_n := int_of_long (fst (strtol optarg))\<rparr>) (out @ [(Stderr, USAGE)])
      else parse_options ops rest [] (g\<lparr>times_n := int_of_long (fst (strtol optarg))\<rparr>) out)"
  by (subst parse_options.simps) (simp add: short_option_t Let_def)

lemma isdigit_not_isspace: "isdigit c \<Longrightarrow> \<not> isspace c"
  by (auto simp add: isdigit_def isspace_def)

lemma isdigit_not_sign: "isdigit c \<Longrightarrow> c \<noteq> CHR ''-'' \<and> c \<noteq> CHR ''+''"
  by (auto simp add: isdigit_def)

lemma strtol_unsigned:
  assumes "isdigit d"
  shows "strtol (d # s)
           = (min LONG_MAX (foldl (\<lambda>acc c. acc * 10 + digit_value c) 0 (takeWhile isdigit (d # s))),
              length (takeWhile isdigit (d # s)))"
proof -
  from assms have d: "\<not> isspace d" "d \<noteq> CHR ''-''" "d \<noteq> CHR ''+''"
    by (simp_all add: isdigit_not_isspace isdigit_not_sign)
  have "takeWhile isspace (d # s) = []" "dropWhile isspace (d # s) = d # s"
    using d(1) by simp_all
  moreover have "take 1 (d # s) \<noteq> ''-''" "take 1 (d # s) \<noteq> ''+''"
    using d(2,3) by simp_all
  moreover have "takeWhile isdigit (d # s) \<noteq> []"
    using assms by simp
  ultimately show ?thesis
    by (simp only: strtol_def Let_def if_False simp_thms list.size add_0 add_0_right)
qed

lemma strtol_digits:
  assumes "digits \<noteq> []" and "\<forall>c\<in>set digits. isdigit c"
    and "garbage = [] \<or> \<not> isdigit (hd garbage)"
  shows "strtol (digits @ garbage) = (fst (strtol digits), length digits)"
    and "snd (strtol digits) = length digits"
proof -
  from assms(1) obtain d ds where digits: "digits = d # ds"
    by (cases digits) auto
  with assms(2) have d: "isdigit d"
    by simp
  have all: "takeWhile isdigit (digits @ garbage) = digits"
    using assms(2,3) by (cases garbage) (simp_all add: takeWhile_append2)
  have only: "takeWhile isdigit digits = digits"
    using assms(2) by simp
  have long: "strtol (digits @ garbage)
      = (min LONG_MAX (foldl (\<lambda>acc c. acc * 10 + digit_value c) 0 digits), length digits)"
    using strtol_unsigned [OF d, of "ds @ garbage"] all by (simp only: digits append_Cons)
  have short: "strtol digits
      = (min LONG_MAX (foldl (\<lambda>acc c. acc * 10 + digit_value c) 0 digits), length digits)"
    using strtol_unsigned [OF d, of ds] only by (simp only: digits)
  show "strtol (digits @ garbage) = (fst (strtol digits), length digits)"
    by (simp only: long short fst_conv)
  show "snd (strtol digits) = length digits"
    by (simp only: short snd_conv)
qed

text \<open>
  Claim C6. Every error in the arguments should end the process with the usage text on the
  error stream and status 1. For an option that \<^verbatim>\<open>getopt_long\<close> does not know, the source
  returns from \<^verbatim>\<open>parse_arguments\<close> at line 83 with \<^verbatim>\<open>*return_val\<close> still 0 and
  writes nothing itself: the process ends with status 0, and only the message of
  \<^verbatim>\<open>getopt_long\<close> is on the error stream. No command is launched.
\<close>

theorem unknown_option_exits_with_success:
  "main ops fuel w [''repeat'', ''-q'', ''echo'', ''hi'']
     = Some (0, \<lparr>next_exec = \<lparr>tv_sec = 0, tv_nsec = 0\<rparr>, launches = 0, clock_reads = 0,
                  sleeps = [], written = [(Stderr, Getopt_message)]\<rparr>)"
proof -
  have "getopt_long [''-q'', ''echo'', ''hi''] [] = Opt (CHR ''?'') [] [''echo'', ''hi''] []"
    by (simp add: short_option_def optstring_def)
  then have "parse_options ops [''-q'', ''echo'', ''hi''] [] initial_globals []
      = Exit_now 0 initial_globals [(Stderr, Getopt_message)]"
    by (subst parse_options.simps) simp
  then show ?thesis
    by (simp add: main_def parse_arguments_def initial_state_def)
qed

text \<open>The other errors do end the process with status 1: a missing command, for one.\<close>

lemma missing_command_exits_with_failure:
  "main ops fuel w [''repeat'', ''-p'']
     = Some (1, \<lparr>next_exec = \<lparr>tv_sec = 0, tv_nsec = 0\<rparr>, launches = 0, clock_reads = 0,
                  sleeps = [], written = [(Stderr, USAGE)]\<rparr>)"
proof -
  have "getopt_long [''-p''] [] = Opt (CHR ''p'') [] [] []"
    by (simp add: short_option_def optstring_def)
  then have "parse_options ops [''-p''] [] initial_globals []
      = Options_done [] (initial_globals\<lparr>precise := True\<rparr>) []"
    by (subst parse_options.simps, simp, subst parse_options.simps, simp)
  then show ?thesis
    by (simp add: main_def parse_arguments_def initial_state_def)
qed

text \<open>
  What the source does with the argument of the repeat-count option: when \<^verbatim>\<open>strtol\<close>
  converts nothing (as for \<open>abc\<close>), the process ends with status 1 and the usage text on the
  error stream, and the command is never launched; characters after the digits are not looked
  at, and the process behaves as if they were not there.
\<close>

lemma count_needs_leading_integer:
  "(snd (strtol optarg) = 0 \<longrightarrow>
      main ops fuel w (prog # ''-t'' # optarg # rest)
        = Some (1, \<lparr>next_exec = \<lparr>tv_sec = 0, tv_nsec = 0\<rparr>, launches = 0, clock_reads = 0,
                     sleeps = [], written = [(Stderr, USAGE)]\<rparr>))
   \<and> (digits \<noteq> [] \<and> (\<forall>c\<in>set digits. isdigit c) \<and> (garbage = [] \<or> \<not> isdigit (hd garbage)) \<longrightarrow>
      main ops fuel w (prog # ''-t'' # (digits @ garbage) # rest)
        = main ops fuel w (prog # ''-t'' # digits # rest))"
proof (intro conjI impI)
  assume "snd (strtol optarg) = 0"
  then show "main ops fuel w (prog # ''-t'' # optarg # rest)
        = Some (1, \<lparr>next_exec = \<lparr>tv_sec = 0, tv_nsec = 0\<rparr>, launches = 0, clock_reads = 0,
                     sleeps = [], written = [(Stderr, USAGE)]\<rparr>)"
    by (simp add: main_def parse_arguments_def parse_options_t initial_state_def)
next
  assume "digits \<noteq> [] \<and> (\<forall>c\<in>set digits. isdigit c) \<and> (garbage = [] \<or> \<not> isdigit (hd garbage))"
  then have d: "digits \<noteq> []" "\<forall>c\<in>set digits. isdigit c" "garbage = [] \<or> \<not> isdigit (hd garbage)"
    by simp_all
  note strtol_digits [OF d]
  with d(1) have "parse_options ops (''-t'' # (digits @ garbage) # rest) [] initial_globals []
      = parse_options ops (''-t'' # digits # rest) [] initial_globals []"
    by (simp add: parse_options_t)
  then show "main ops fuel w (prog # ''-t'' # (digits @ garbage) # rest)
        = main ops fuel w (prog # ''-t'' # digits # rest)"
    by (simp add: main_def parse_arguments_def split: parsed.splits)
qed

lemma non_numeric_count_is_rejected:
  "main ops fuel w [''repeat'', ''-t'', ''abc'', ''true'']
     = Some (1, \<lparr>next_exec = \<lparr>tv_sec = 0, tv_nsec = 0\<rparr>, launches = 0, clock_reads = 0,
                  sleeps = [], written = [(Stderr, USAGE)]\<rparr>)"
  by code_simp

text \<open>
  Claim C7. The argument of the repeat-count option should parse fully as an integer, any
  character after the digits being a parse error with a failure exit, the usage text, and no
  launch. The source tests only whether \<^verbatim>\<open>strtol\<close> converted anything (line 86) and never
  looks at \<^verbatim>\<open>*endp\<close>, as the interval option does (line 102): \<open>-t 5abc\<close> is no error.
  The count is 5, the command is launched five times, the exit status is that of the command,
  and nothing is written.
\<close>

theorem count_with_trailing_garbage_is_accepted:
  "main ops 5
     \<lparr>system_ret = (\<lambda>k. status_word (NormalExit 0)), wait_ret = (\<lambda>k j. Wait_Failed EINTR),
       origin_ret = Clock_Failed, now_ret = (\<lambda>k. Clock_Failed), nanosleep_ret = (\<lambda>k j. 0)\<rparr>
     [''repeat'', ''-t'', ''5abc'', ''true'']
   = Some (0, \<lparr>next_exec = \<lparr>tv_sec = 0, tv_nsec = 0\<rparr>, launches = 5, clock_reads = 0,
                sleeps = [], written = []\<rparr>)"
  by code_simp

section \<open>The count that the times option stores\<close>

lemma set_interval_times:
  "set_interval ops optarg g = Inr g' \<Longrightarrow> times_n g' = times_n g"
  by (auto simp add: set_interval_def split: prod.splits if_splits option.splits list.splits)

lemma parse_options_step_times:
  assumes "getopt_long args nextchar = Opt c optarg args' nextchar'"
    and "parse_options ops args nextchar g out = Options_done rest g' out'"
  shows "\<exists>g1 out1. parse_options ops args' nextchar' g1 out1 = Options_done rest g' out'
           \<and> times_n g1 = (if c = CHR ''t'' then int_of_long (fst (strtol optarg)) else times_n g)"
  using assms(2)
  by (subst (asm) parse_options.simps)
     (fastforce simp add: assms(1) Let_def dest: set_interval_times split: if_splits sum.splits)

lemma parse_options_times:
  "parse_options ops args nextchar g out = Options_done rest g' out' \<Longrightarrow>
     times_n g' = (if times_optargs args nextchar = [] then times_n g
                   else int_of_long (fst (strtol (last (times_optargs args nextchar)))))"
proof (induction "consumed args nextchar" arbitrary: args nextchar g out rule: less_induct)
  case less
  show ?case
  proof (cases "getopt_long args nextchar")
    case (No_more r)
    with less.prems have "g' = g"
      by (subst (asm) parse_options.simps) simp
    moreover from No_more have "times_optargs args nextchar = []"
      by (subst times_optargs.simps) simp
    ultimately show ?thesis
      by simp
  next
    case (Opt c optarg args' nextchar')
    from parse_options_step_times [OF Opt less.prems]
    obtain g1 out1 where rest: "parse_options ops args' nextchar' g1 out1 = Options_done rest g' out'"
      and g1: "times_n g1 = (if c = CHR ''t'' then int_of_long (fst (strtol optarg)) else times_n g)"
      by blast
    from getopt_long_consumes [OF Opt] rest
    have later: "times_n g' = (if times_optargs args' nextchar' = [] then times_n g1
                   else int_of_long (fst (strtol (last (times_optargs args' nextchar')))))"
      by (rule less.hyps)
    from Opt have here: "times_optargs args nextchar
        = (if c = CHR ''t'' then [optarg] else []) @ times_optargs args' nextchar'"
      by (subst times_optargs.simps) simp
    show ?thesis
      by (simp add: here later g1)
  qed
qed

lemma parse_arguments_times:
  assumes "parse_arguments ops argv = (False, rv, g, out)"
    and "times_optargs (tl argv) [] \<noteq> []"
  shows "times_n g = int_of_long (fst (strtol (last (times_optargs (tl argv) []))))"
proof (cases "parse_options ops (tl argv) [] initial_globals []")
  case (Exit_now return_val g0 out0)
  with assms(1) show ?thesis
    by (simp add: parse_arguments_def)
next
  case (Options_done rest g0 out0)
  from parse_options_times [OF this] assms(2)
  have "times_n g0 = int_of_long (fst (strtol (last (times_optargs (tl argv) []))))"
    by simp
  moreover from assms(1) Options_done have "times_n g = times_n g0"
    by (auto simp add: parse_arguments_def Let_def split: if_splits)
  ultimately show ?thesis
    by simp
qed

lemma int_of_long_id:
  assumes "- 2147483648 \<le> v" and "v \<le> 2147483647"
  shows "int_of_long v = v"
proof -
  have "(2::int) ^ 31 = 2147483648"
    by simp
  with assms have "- (2 ^ 31) \<le> v" and "v < 2 ^ 31"
    by linarith+
  then show ?thesis
    by (simp only: int_of_long_def signed_take_bit_int_eq_self)
qed

lemma main_parsed:
  "parse_arguments ops argv = (False, rv, g, out) \<Longrightarrow> main ops fuel w argv = run fuel w g out"
  by (simp add: main_def)

text \<open>
  Claim C1, with the bounds it needs. With neither stop flag set and a repeat count \<open>N\<close>
  from 1 to 2147483647 given to the times option (the value \<^verbatim>\<open>strtol\<close> reads from the
  argument of the last times option of the command line), every child ending by a normal exit,
  in an environment where the clock can be read and every sleep returns 0 at some call, the
  process exits: the command has been launched exactly \<open>N\<close> times, and the exit status is
  the exit code of the \<open>N\<close>-th launch.
\<close>

theorem repeat_count_exhausted:
  assumes "parse_arguments ops argv = (False, rv, g, out)"
    and "times_optargs (tl argv) [] \<noteq> []"
    and "fst (strtol (last (times_optargs (tl argv) []))) = int N"
    and "1 \<le> N" and "N \<le> 2147483647"
    and "\<not> exit_on_error g" and "\<not> exit_on_success g"
    and "\<forall>k<N. child_exits w g k (code k)"
    and "\<forall>k. Suc k < N \<longrightarrow> pause_ends w g k"
    and "precise g \<longrightarrow> origin_ret w \<noteq> Clock_Failed"
  shows "\<exists>F st'. (\<forall>fuel\<ge>F. main ops fuel w argv = Some (code (N - 1), st')) \<and> launches st' = N"
proof -
  have "int_of_long (int N) = int N"
    using assms(5) by (intro int_of_long_id) simp_all
  with parse_arguments_times [OF assms(1,2)] assms(3) have "times_n g = int N"
    by simp
  from run_count_exhausted [OF assms(4) this assms(6-10), of out]
  show ?thesis
    by (simp only: main_parsed [OF assms(1)])
qed

theorem repeat_count_exhausted_witness:
  "(\<exists>F st'. (\<forall>fuel\<ge>F. main no_float fuel
        \<lparr>system_ret = (\<lambda>k. status_word (NormalExit (int k + 7))),
          wait_ret = (\<lambda>k j. Wait_Failed EINTR), origin_ret = Clock_Failed,
          now_ret = (\<lambda>k. Clock_Failed), nanosleep_ret = (\<lambda>k j. 0)\<rparr>
        [''repeat'', ''-t'', ''9'', ''--times=3'', ''true'']
        = Some (9, st')) \<and> launches st' = 3)
   \<and> main no_float 3
        \<lparr>system_ret = (\<lambda>k. status_word (NormalExit (int k + 7))),
          wait_ret = (\<lambda>k j. Wait_Failed EINTR), origin_ret = Clock_Failed,
          now_ret = (\<lambda>k. Clock_Failed), nanosleep_ret = (\<lambda>k j. 0)\<rparr>
        [''repeat'', ''-t'', ''9'', ''--times=3'', ''true'']
      = Some (9, \<lparr>next_exec = \<lparr>tv_sec = 0, tv_nsec = 0\<rparr>, launches = 3, clock_reads = 0,
                   sleeps = [], written = []\<rparr>)"
proof
  let ?w = "\<lparr>system_ret = (\<lambda>k. status_word (NormalExit (int k + 7))),
          wait_ret = (\<lambda>k j. Wait_Failed EINTR), origin_ret = Clock_Failed,
          now_ret = (\<lambda>k. Clock_Failed), nanosleep_ret = (\<lambda>k j. 0)\<rparr>"
  let ?argv = "[''repeat'', ''-t'', ''9'', ''--times=3'', ''true'']"
  let ?g = "initial_globals\<lparr>times_n := 3, cmd_arg_idx := 4, command := Some ''true''\<rparr>"
  have "parse_arguments ops ?argv = (False, 0, ?g, [])" for ops :: "unit float_ops"
    by code_simp
  then have parsed: "parse_arguments no_float ?argv = (False, 0, ?g, [])" .
  have given: "times_optargs (tl ?argv) [] = [''9'', ''3'']"
    by code_simp
  then have some: "times_optargs (tl ?argv) [] \<noteq> []"
    by simp
  have "fst (strtol ''3'') = int 3"
    by code_simp
  with given have count: "fst (strtol (last (times_optargs (tl ?argv) []))) = int 3"
    by simp
  have range: "(1::nat) \<le> 3" "(3::nat) \<le> 2147483647"
    by simp_all
  have flags: "\<not> exit_on_error ?g" "\<not> exit_on_success ?g"
    and clock: "precise ?g \<longrightarrow> origin_ret ?w \<noteq> Clock_Failed"
    by (simp_all add: initial_globals_def)
  have children: "\<forall>k<3. child_exits ?w ?g k (int k + 7)"
    by (simp add: child_exits_def initial_globals_def)
  have pauses: "\<forall>k. Suc k < 3 \<longrightarrow> pause_ends ?w ?g k"
    by (simp add: pause_ends_def initial_globals_def)
  from repeat_count_exhausted [OF parsed some count range flags children pauses clock]
  show "\<exists>F st'. (\<forall>fuel\<ge>F. main no_float fuel ?w ?argv = Some (9, st')) \<and> launches st' = 3"
    by simp
  have "main ops 3 ?w ?argv
      = Some (9, \<lparr>next_exec = \<lparr>tv_sec = 0, tv_nsec = 0\<rparr>, launches = 3, clock_reads = 0,
                   sleeps = [], written = []\<rparr>)" for ops :: "unit float_ops"
    by code_simp
  then show "main no_float 3 ?w ?argv
      = Some (9, \<lparr>next_exec = \<lparr>tv_sec = 0, tv_nsec = 0\<rparr>, launches = 3, clock_reads = 0,
                   sleeps = [], written = []\<rparr>)" .
qed

text \<open>
  Claim C1, as stated for every repeat count \<open>N \<ge> 1\<close>, fails for a count beyond the range
  of \<^verbatim>\<open>int\<close>: line 85 stores the \<^verbatim>\<open>long\<close> that \<^verbatim>\<open>strtol\<close> returns in the
  \<^verbatim>\<open>int\<close> \<^verbatim>\<open>times\<close>. With \<open>-t 4294967297\<close> the count kept is 1: the command is
  launched once, and the process exits with the status of that launch.
\<close>

theorem count_beyond_int_is_narrowed:
  "main no_float 1
     \<lparr>system_ret = (\<lambda>k. status_word (NormalExit 7)), wait_ret = (\<lambda>k j. Wait_Failed EINTR),
       origin_ret = Clock_Failed, now_ret = (\<lambda>k. Clock_Failed), nanosleep_ret = (\<lambda>k j. 0)\<rparr>
     [''repeat'', ''-t'', ''4294967297'', ''true'']
   = Some (7, \<lparr>next_exec = \<lparr>tv_sec = 0, tv_nsec = 0\<rparr>, launches = 1, clock_reads = 0,
                sleeps = [], written = []\<rparr>)"
proof -
  have "main ops 1
     \<lparr>system_ret = (\<lambda>k. status_word (NormalExit 7)), wait_ret = (\<lambda>k j. Wait_Failed EINTR),
       origin_ret = Clock_Failed, now_ret = (\<lambda>k. Clock_Failed), nanosleep_ret = (\<lambda>k j. 0)\<rparr>
     [''repeat'', ''-t'', ''4294967297'', ''true'']
   = Some (7, \<lparr>next_exec = \<lparr>tv_sec = 0, tv_nsec = 0\<rparr>, launches = 1, clock_reads = 0,
                sleeps = [], written = []\<rparr>)" for ops :: "unit float_ops"
    by code_simp
  then show ?thesis .
qed

text \<open>
  Why the environment is part of the statement above: where the sleep after the first launch
  never returns 0, the second launch is never made, whatever the count.
\<close>

lemma first_sleep_never_ends:
  assumes "\<not> use_exec g" and "system_ret w 0 = status_word (NormalExit code)"
    and "0 \<le> code" and "code \<le> 255"
    and "\<not> exit_on_error g" and "\<not> exit_on_success g" and "times_n g \<noteq> 1"
    and "tv_sec (interval_ts g) \<noteq> 0 \<or> tv_nsec (interval_ts g) \<noteq> 0"
    and "\<not> precise g" and "now_ret w 0 \<noteq> Clock_Failed" and "\<forall>j. nanosleep_ret w 0 j \<noteq> 0"
  shows "run fuel w g out = None"
proof -
  define st where "st = initial_state (if debug g then out @ [(Stdout, Debug_dump)] else out)"
  have start: "start w g out = Inr st" and zero: "launches st = 0"
    using assms(9) by (simp_all add: start_def Let_def st_def initial_state_def)
  have body: "loop_body f w g st = None" for f
  proof -
    have l: "launch f w g (launches st) = Some (Reaped (status_word (NormalExit code)))"
      using assms(1,2) by (simp add: launch_def zero)
    have e: "evaluate g (status_word (NormalExit code)) = Go_on"
      using assms(3-6) by (rule evaluate_normal_exit)
    have z: "0 \<le> status_word (NormalExit code)"
      using assms(3,4) by (rule exited_status)
    have "pause f w g' 0 s = None"
      if "interval_ts g' = interval_ts g" and "precise g' = precise g" for g' s
      using assms(8,10,11) that by (intro pause_never_ends) simp_all
    with loop_body_go_on [OF l z e] assms(7) show ?thesis
      by (simp add: Let_def zero)
  qed
  have "main_loop fuel w g st = None"
    by (cases fuel) (simp_all add: body)
  then show ?thesis
    by (simp add: run_def start)
qed

lemma count_not_reached_when_sleep_fails:
  "run fuel
     \<lparr>system_ret = (\<lambda>k. status_word (NormalExit 0)), wait_ret = (\<lambda>k j. Wait_Failed EINTR),
       origin_ret = Clock_Failed, now_ret = (\<lambda>k. Clock_Read \<lparr>tv_sec = 5, tv_nsec = 0\<rparr>),
       nanosleep_ret = (\<lambda>k j. 22)\<rparr>
     (initial_globals\<lparr>times_n := 2, interval_ts := \<lparr>tv_sec = - 100000, tv_nsec = 0\<rparr>\<rparr>) []
   = None"
  by (rule first_sleep_never_ends [where code = 0]) (simp_all add: initial_globals_def)

text \<open>
  Claim C10, with the bound it needs. For every value from -2147483648 to -1 given to the
  times option (the value \<^verbatim>\<open>strtol\<close> reads from the argument of the last times option of
  the command line), that value is the count kept, and the loop behaves as with the count 0:
  for every bound and environment the run has the same outcome (the same exit status and
  observations, or it is still running); the count is never changed, however many iterations
  are made; and an iteration whose child's status stops nothing goes on to the wait for the
  next deadline, the repeat-count exit being skipped.
\<close>

theorem negative_count_like_zero:
  assumes "parse_arguments ops argv = (False, rv, g, out)"
    and "times_optargs (tl argv) [] \<noteq> []"
    and "fst (strtol (last (times_optargs (tl argv) []))) = v"
    and "- 2147483648 \<le> v" and "v < 0"
  shows "times_n g = v
       \<and> main ops fuel w argv = run fuel w (g\<lparr>times_n := 0\<rparr>) out
       \<and> (\<forall>n g' st'. rounds fuel n w g st = Some (Continue g' st') \<longrightarrow> times_n g' = v)
       \<and> (\<forall>ret. launch fuel w g (launches st) = Some (Reaped ret) \<and> 0 \<le> ret
                  \<and> evaluate g ret = Go_on \<longrightarrow>
             loop_body fuel w g st =
               pause fuel w g (launches st)
                 ((if precise g
                   then st\<lparr>next_exec := timespec_add (next_exec st) (interval_ts g)\<rparr>
                   else st)\<lparr>launches := Suc (launches st)\<rparr>))"
proof -
  have "int_of_long v = v"
    using assms(4,5) by (intro int_of_long_id) simp_all
  with parse_arguments_times [OF assms(1,2)] assms(3) have stored: "times_n g = v"
    by simp
  with assms(5) have neg: "times_n g < 0"
    by simp
  from negative_count_runs [OF neg, of fuel w out st] stored show ?thesis
    by (simp only: main_parsed [OF assms(1)]) simp
qed

theorem negative_count_like_zero_witness:
  "parse_arguments no_float [''repeat'', ''-t'', ''-3'', ''true'']
     = (False, 0, initial_globals\<lparr>times_n := - 3, cmd_arg_idx := 3, command := Some ''true''\<rparr>, [])
   \<and> main no_float 4 \<lparr>system_ret = (\<lambda>k. status_word (NormalExit 1)),
              wait_ret = (\<lambda>k j. Wait_Failed EINTR), origin_ret = Clock_Failed,
              now_ret = (\<lambda>k. Clock_Failed), nanosleep_ret = (\<lambda>k j. 0)\<rparr>
          [''repeat'', ''-t'', ''-3'', ''true'']
       = run 4 \<lparr>system_ret = (\<lambda>k. status_word (NormalExit 1)),
              wait_ret = (\<lambda>k j. Wait_Failed EINTR), origin_ret = Clock_Failed,
              now_ret = (\<lambda>k. Clock_Failed), nanosleep_ret = (\<lambda>k j. 0)\<rparr>
          (initial_globals\<lparr>times_n := - 3, cmd_arg_idx := 3, command := Some ''true'',
                            times_n := 0\<rparr>) []
   \<and> rounds 4 4 \<lparr>system_ret = (\<lambda>k. status_word (NormalExit 1)),
              wait_ret = (\<lambda>k j. Wait_Failed EINTR), origin_ret = Clock_Failed,
              now_ret = (\<lambda>k. Clock_Failed), nanosleep_ret = (\<lambda>k j. 0)\<rparr>
          (initial_globals\<lparr>times_n := - 3, cmd_arg_idx := 3, command := Some ''true''\<rparr>)
          (initial_state [])
       = Some (Continue (initial_globals\<lparr>times_n := - 3, cmd_arg_idx := 3, command := Some ''true''\<rparr>)
                 ((initial_state [])\<lparr>launches := 4\<rparr>))"
proof -
  let ?w = "\<lparr>system_ret = (\<lambda>k. status_word (NormalExit 1)),
              wait_ret = (\<lambda>k j. Wait_Failed EINTR), origin_ret = Clock_Failed,
              now_ret = (\<lambda>k. Clock_Failed), nanosleep_ret = (\<lambda>k j. 0)\<rparr>"
  let ?argv = "[''repeat'', ''-t'', ''-3'', ''true'']"
  let ?g = "initial_globals\<lparr>times_n := - 3, cmd_arg_idx := 3, command := Some ''true''\<rparr>"
  have "parse_arguments ops ?argv = (False, 0, ?g, [])" for ops :: "unit float_ops"
    by code_simp
  then have parsed: "parse_arguments no_float ?argv = (False, 0, ?g, [])" .
  have given: "times_optargs (tl ?argv) [] = [''-3'']"
    by code_simp
  then have some: "times_optargs (tl ?argv) [] \<noteq> []"
    by simp
  have "fst (strtol ''-3'') = - 3"
    by code_simp
  with given have count: "fst (strtol (last (times_optargs (tl ?argv) []))) = - 3"
    by simp
  have range: "- 2147483648 \<le> (- 3::int)" "(- 3::int) < 0"
    by simp_all
  have still: "rounds 4 4 ?w ?g (initial_state [])
                 = Some (Continue ?g ((initial_state [])\<lparr>launches := 4\<rparr>))"
    by code_simp
  from negative_count_like_zero [OF parsed some count range, of 4 ?w "initial_state []"]
  have "main no_float 4 ?w ?argv = run 4 ?w (?g\<lparr>times_n := 0\<rparr>) []"
    by blast
  with parsed still show ?thesis
    by (intro conjI)
qed

text \<open>
  Claim C10, as stated for every negative value that the times option accepts, fails for a
  value below the range of \<^verbatim>\<open>int\<close>: \<open>-t -4294967295\<close> is accepted, and line 85 keeps
  the count 1. The count is decremented, and the process exits after one launch, where with
  the count 0 it is still running.
\<close>

theorem negative_count_below_int_is_narrowed:
  "main no_float 1
     \<lparr>system_ret = (\<lambda>k. status_word (NormalExit 7)), wait_ret = (\<lambda>k j. Wait_Failed EINTR),
       origin_ret = Clock_Failed, now_ret = (\<lambda>k. Clock_Failed), nanosleep_ret = (\<lambda>k j. 0)\<rparr>
     [''repeat'', ''-t'', ''-4294967295'', ''true'']
   = Some (7, \<lparr>next_exec = \<lparr>tv_sec = 0, tv_nsec = 0\<rparr>, launches = 1, clock_reads = 0,
                sleeps = [], written = []\<rparr>)
   \<and> main no_float 1
     \<lparr>system_ret = (\<lambda>k. status_word (NormalExit 7)), wait_ret = (\<lambda>k j. Wait_Failed EINTR),
       origin_ret = Clock_Failed, now_ret = (\<lambda>k. Clock_Failed), nanosleep_ret = (\<lambda>k j. 0)\<rparr>
     [''repeat'', ''-t'', ''0'', ''true'']
   = None"
proof -
  have "main ops 1
     \<lparr>system_ret = (\<lambda>k. status_word (NormalExit 7)), wait_ret = (\<lambda>k j. Wait_Failed EINTR),
       origin_ret = Clock_Failed, now_ret = (\<lambda>k. Clock_Failed), nanosleep_ret = (\<lambda>k j. 0)\<rparr>
     [''repeat'', ''-t'', ''-4294967295'', ''true'']
   = Some (7, \<lparr>next_exec = \<lparr>tv_sec = 0, tv_nsec = 0\<rparr>, launches = 1, clock_reads = 0,
                sleeps = [], written = []\<rparr>)
   \<and> main ops 1
     \<lparr>system_ret = (\<lambda>k. status_word (NormalExit 7)), wait_ret = (\<lambda>k j. Wait_Failed EINTR),
       origin_ret = Clock_Failed, now_ret = (\<lambda>k. Clock_Failed), nanosleep_ret = (\<lambda>k j. 0)\<rparr>
     [''repeat'', ''-t'', ''0'', ''true'']
   = None" for ops :: "unit float_ops"
    by code_simp
  then show ?thesis .
qed

end
